theory Spec2Isabelle
  imports Main "HOL-Library.AList"
begin

section \<open>Strings\<close>

text \<open>
  This theory embeds the URL canonicalization, the bookmark deduplication, the bookmark search
  and the title extraction of the bookmark manager, and settles what its specification says
  about them. The \<open>URL\<close> class of the runtime is a parameter of the embedding: the general
  statements hold for every platform, or for every platform that meets the laws collected in
  \<open>conforming\<close>, and the examples are computed on the reference implementation
  \<open>reference\<close>.

  A value of type \<^typ>\<open>string\<close> stands for a JavaScript string all of whose code units lie
  in U+0000..U+00FF; the character with code \<open>n\<close> is the code unit \<open>n\<close>. Numbers are
  timestamps in milliseconds and are modelled as integers. The functions below are the methods of
  \<open>String.prototype\<close> that the sources call, restricted to such strings.
\<close>

definition startsWith :: "string \<Rightarrow> string \<Rightarrow> bool" where
  "startsWith s p = (take (length p) s = p)"

definition endsWith :: "string \<Rightarrow> string \<Rightarrow> bool" where
  "endsWith s p = (length p \<le> length s \<and> drop (length s - length p) s = p)"

fun str_includes :: "string \<Rightarrow> string \<Rightarrow> bool" where
  "str_includes [] p = (p = [])"
| "str_includes (c # cs) p = (startsWith (c # cs) p \<or> str_includes cs p)"

text \<open>
  \<open>trim\<close> removes white space and line terminators from both ends; among the code units up
  to U+00FF these are TAB, LF, VT, FF, CR, SPACE and NO-BREAK SPACE. \<open>toLowerCase\<close> maps
  \<open>A\<close>..\<open>Z\<close> and the capital letters U+00C0..U+00DE (without the multiplication sign U+00D7)
  to the code unit 32 above.
\<close>

definition char_code :: "char \<Rightarrow> nat" where
  "char_code c = of_char c"

definition is_js_space :: "char \<Rightarrow> bool" where
  "is_js_space c = (char_code c \<in> {0x09, 0x0A, 0x0B, 0x0C, 0x0D, 0x20, 0xA0})"

definition trim :: "string \<Rightarrow> string" where
  "trim s = rev (dropWhile is_js_space (rev (dropWhile is_js_space s)))"

definition is_ascii_upper :: "char \<Rightarrow> bool" where
  "is_ascii_upper c = (0x41 \<le> char_code c \<and> char_code c \<le> 0x5A)"

definition is_ascii_lower :: "char \<Rightarrow> bool" where
  "is_ascii_lower c = (0x61 \<le> char_code c \<and> char_code c \<le> 0x7A)"

definition is_ascii_digit :: "char \<Rightarrow> bool" where
  "is_ascii_digit c = (0x30 \<le> char_code c \<and> char_code c \<le> 0x39)"

definition is_ascii_alpha :: "char \<Rightarrow> bool" where
  "is_ascii_alpha c = (is_ascii_upper c \<or> is_ascii_lower c)"

definition is_ascii_alnum :: "char \<Rightarrow> bool" where
  "is_ascii_alnum c = (is_ascii_alpha c \<or> is_ascii_digit c)"

definition is_ascii_hex :: "char \<Rightarrow> bool" where
  "is_ascii_hex c = (is_ascii_digit c \<or> (0x41 \<le> char_code c \<and> char_code c \<le> 0x46) \<or> (0x61 \<le> char_code c \<and> char_code c \<le> 0x66))"

definition ascii_lower :: "char \<Rightarrow> char" where
  "ascii_lower c = (if is_ascii_upper c then char_of (char_code c + 0x20) else c)"

definition toLowerCase_char :: "char \<Rightarrow> char" where
  "toLowerCase_char c =
     (if is_ascii_upper c \<or> (0xC0 \<le> char_code c \<and> char_code c \<le> 0xDE \<and> char_code c \<noteq> 0xD7)
      then char_of (char_code c + 0x20) else c)"

definition toLowerCase :: "string \<Rightarrow> string" where
  "toLowerCase s = map toLowerCase_char s"

text \<open>\<open>Array.prototype.join\<close> on an array of strings.\<close>

fun join :: "string \<Rightarrow> string list \<Rightarrow> string" where
  "join sep [] = []"
| "join sep [x] = x"
| "join sep (x # y # ys) = x @ sep @ join sep (y # ys)"

subsection \<open>Splitting\<close>

text \<open>
  \<open>split_on P s\<close> cuts \<open>s\<close> at every character that satisfies \<open>P\<close> and keeps empty
  pieces; \<open>before P s\<close> is the part of \<open>s\<close> in front of the first such character and
  \<open>after P s\<close> the part behind it, if there is one.
\<close>

fun split_on :: "(char \<Rightarrow> bool) \<Rightarrow> string \<Rightarrow> string list" where
  "split_on P [] = [[]]"
| "split_on P (c # cs) =
     (if P c then [] # split_on P cs
      else (case split_on P cs of [] \<Rightarrow> [[c]] | s # ss \<Rightarrow> (c # s) # ss))"

definition before :: "(char \<Rightarrow> bool) \<Rightarrow> string \<Rightarrow> string" where
  "before P s = takeWhile (\<lambda>c. \<not> P c) s"

definition after :: "(char \<Rightarrow> bool) \<Rightarrow> string \<Rightarrow> string option" where
  "after P s = (case dropWhile (\<lambda>c. \<not> P c) s of [] \<Rightarrow> None | _ # r \<Rightarrow> Some r)"

section \<open>Metadata extraction: helpers\<close>

text \<open>
  The regular expressions of the metadata extractor are sequences of four kinds of item: a
  literal matched without regard to ASCII case (all of them carry the flag \<open>i\<close>), one
  character of a class, a greedy repetition \<open>[...]*\<close> of a class, and the one capture group
  \<open>([...]*)\<close>. \<open>match_items\<close> is the backtracking matcher at a fixed start position: a
  repetition first takes as many characters as the class allows and gives them back one at a
  time while the rest of the expression fails. \<open>regex_match\<close> is \<open>String.prototype.match\<close>
  for such an expression without the flag \<open>g\<close>: it tries the start positions from left to
  right and returns the capture group of the first match.
\<close>

datatype char_class = OneOf string | NoneOf string

datatype regex_item = Lit string | One char_class | Star char_class | Capture char_class

fun in_class :: "char_class \<Rightarrow> char \<Rightarrow> bool" where
  "in_class (OneOf cs) c = (c \<in> set cs)"
| "in_class (NoneOf cs) c = (c \<notin> set cs)"

fun try_star :: "(string \<Rightarrow> string \<Rightarrow> string option) \<Rightarrow> string \<Rightarrow> nat \<Rightarrow> string option" where
  "try_star k s 0 = k [] s"
| "try_star k s (Suc n) =
     (case k (take (Suc n) s) (drop (Suc n) s) of Some r \<Rightarrow> Some r | None \<Rightarrow> try_star k s n)"

primrec match_items :: "regex_item list \<Rightarrow> string \<Rightarrow> string \<Rightarrow> string option" where
  "match_items [] = (\<lambda>s cap. Some cap)"
| "match_items (item # items) = (\<lambda>s cap.
     case item of
       Lit l \<Rightarrow>
         if length l \<le> length s \<and> map ascii_lower (take (length l) s) = map ascii_lower l
         then match_items items (drop (length l) s) cap else None
     | One cl \<Rightarrow>
         (case s of [] \<Rightarrow> None
          | c # cs \<Rightarrow> if in_class cl c then match_items items cs cap else None)
     | Star cl \<Rightarrow>
         try_star (\<lambda>m r. match_items items r cap) s (length (takeWhile (in_class cl) s))
     | Capture cl \<Rightarrow>
         try_star (\<lambda>m r. match_items items r m) s (length (takeWhile (in_class cl) s)))"

fun regex_match :: "regex_item list \<Rightarrow> string \<Rightarrow> string option" where
  "regex_match re [] = match_items re [] []"
| "regex_match re (c # cs) =
     (case match_items re (c # cs) [] of Some cap \<Rightarrow> Some cap | None \<Rightarrow> regex_match re cs)"

text \<open>
  \<^verbatim>\<open>/<meta[^>]*property=["']og:title["'][^>]*content=["']([^"']*)["']/i\<close>,
  \<^verbatim>\<open>/<meta[^>]*name=["']twitter:title["'][^>]*content=["']([^"']*)["']/i\<close> and
  \<^verbatim>\<open>/<title[^>]*>([^<]*)<\/title>/i\<close>.
\<close>

definition quote_class :: char_class where
  "quote_class = OneOf [CHR 0x22, CHR 0x27]"

definition og_title_regex :: "regex_item list" where
  "og_title_regex =
     [Lit ''<meta'', Star (NoneOf ''>''), Lit ''property='', One quote_class, Lit ''og:title'',
      One quote_class, Star (NoneOf ''>''), Lit ''content='', One quote_class,
      Capture (NoneOf [CHR 0x22, CHR 0x27]), One quote_class]"

definition twitter_title_regex :: "regex_item list" where
  "twitter_title_regex =
     [Lit ''<meta'', Star (NoneOf ''>''), Lit ''name='', One quote_class, Lit ''twitter:title'',
      One quote_class, Star (NoneOf ''>''), Lit ''content='', One quote_class,
      Capture (NoneOf [CHR 0x22, CHR 0x27]), One quote_class]"

definition title_regex :: "regex_item list" where
  "title_regex = [Lit ''<title'', Star (NoneOf ''>''), Lit ''>'', Capture (NoneOf ''<''), Lit ''</title>'']"

text \<open>
  \<^verbatim>\<open>
  function decodeHtmlEntities(text: string): string {
    const entities: Record<string, string> = {
      '&amp;': '&', '&lt;': '<', '&gt;': '>', '&quot;': '"', '&#39;': "'", '&apos;': "'",
    };
    return text.replace(/&[^;]+;/g, match => entities[match] || match);
  }
  \<close>
  A match of \<^verbatim>\<open>/&[^;]+;/\<close> starts at an ampersand that is followed by at least one
  character other than \<open>;\<close> and then by \<open>;\<close>; it ends at the first \<open>;\<close>. The scan
  resumes behind a match.
\<close>

definition entities :: "(string \<times> string) list" where
  "entities =
     [(''&amp;'', ''&''), (''&lt;'', ''<''), (''&gt;'', ''>''), (''&quot;'', [CHR 0x22]),
      (''&#39;'', [CHR 0x27]), (''&apos;'', [CHR 0x27])]"

function decodeHtmlEntities :: "string \<Rightarrow> string" where
  "decodeHtmlEntities [] = []"
| "decodeHtmlEntities (c # cs) =
     (let name = takeWhile (\<lambda>x. x \<noteq> CHR '';'') cs;
          rest = dropWhile (\<lambda>x. x \<noteq> CHR '';'') cs
      in if c = CHR ''&'' \<and> name \<noteq> [] \<and> rest \<noteq> []
         then (case map_of entities (c # name @ '';'') of Some r \<Rightarrow> r | None \<Rightarrow> c # name @ '';'')
                @ decodeHtmlEntities (tl rest)
         else c # decodeHtmlEntities cs)"
  by pat_completeness auto
termination
  by (relation "measure length")
     (auto simp: less_Suc_eq_le le_trans [OF diff_le_self length_dropWhile_le])

text \<open>\<open>String.prototype.replace\<close> with a string pattern: the first occurrence only.\<close>

fun replace_first :: "string \<Rightarrow> string \<Rightarrow> string \<Rightarrow> string" where
  "replace_first p r [] = (if p = [] then r else [])"
| "replace_first p r (c # cs) =
     (if startsWith (c # cs) p then r @ drop (length p) (c # cs) else c # replace_first p r cs)"

text \<open>
  \<^verbatim>\<open>
  function resolveUrl(href: string, base: string): string {
    try {
      if (href.startsWith('http')) return href;
      if (href.startsWith('//')) return `https:${href}`;
      if (href.startsWith('/')) return `${base}${href}`;
      return `${base}/${href}`;
    } catch {
      return href;
    }
  }
  \<close>
  Nothing in the \<open>try\<close> block throws on strings.
\<close>

definition resolveUrl :: "string \<Rightarrow> string \<Rightarrow> string" where
  "resolveUrl href base =
     (if startsWith href ''http'' then href
      else if startsWith href ''//'' then ''https:'' @ href
      else if startsWith href ''/'' then base @ href
      else base @ ''/'' @ href)"

section \<open>The platform's URL class\<close>

text \<open>
  The sources call the constructor \<open>new URL(s)\<close>, the getters \<open>href\<close>, \<open>hostname\<close> and
  \<open>pathname\<close>, the setters of \<open>hostname\<close>, \<open>hash\<close> and \<open>pathname\<close>, \<open>toString()\<close>, and
  \<open>delete\<close> and \<open>keys\<close> of \<open>searchParams\<close>. The class belongs to the runtime, not to the
  sources, and is modelled after the URL Standard (WHATWG) in two parts.

  The state of a \<open>URL\<close> object is a record of the components of the URL in their serialized
  form: the scheme without its colon, the user name and the password, the host (\<open>None\<close> for
  a URL without a host), the port (\<open>None\<close> for no port or the default port of the scheme), the
  path as \<open>pathname\<close> returns it, and the query and the fragment without their leading \<open>?\<close>
  and \<open>#\<close> (\<open>None\<close> when absent). The getters and the URL serializer are functions on this
  record. A mutable object becomes a record that each setter takes and returns.

  The operations that run a parser are the fields of a record of type \<open>platform\<close>, which
  every function of the sources that uses the class takes as its first argument: the constructor,
  which throws on a string that is not a valid URL, the three setters and \<open>delete\<close>, which never
  throw, \<open>keys\<close>, and the parser and the serializer of the format
  \<open>application/x-www-form-urlencoded\<close>, which relate the query to the list of name-value pairs
  behind \<open>searchParams\<close>. An exception is a value of type \<open>url_error\<close>: \<open>TypeError\<close> is what
  the constructor throws; \<open>Unsupported\<close> is raised only by the reference implementation
  \<open>reference\<close> below, on the URLs that it does not implement.
\<close>

datatype url_error = TypeError | Unsupported

record URL =
  url_scheme :: string
  url_username :: string
  url_password :: string
  url_host :: "string option"
  url_port :: "nat option"
  url_path :: string
  url_query :: "string option"
  url_fragment :: "string option"

record platform =
  URL_new :: "string \<Rightarrow> url_error + URL"
  set_hostname :: "URL \<Rightarrow> string \<Rightarrow> URL"
  set_hash :: "URL \<Rightarrow> string \<Rightarrow> URL"
  set_pathname :: "URL \<Rightarrow> string \<Rightarrow> URL"
  searchParams_delete :: "URL \<Rightarrow> string \<Rightarrow> URL"
  searchParams_keys :: "URL \<Rightarrow> string list"
  urlencoded_parser :: "string \<Rightarrow> (string \<times> string) list"
  urlencoded_serializer :: "(string \<times> string) list \<Rightarrow> string"

definition and_then :: "url_error + 'a \<Rightarrow> ('a \<Rightarrow> url_error + 'b) \<Rightarrow> url_error + 'b" where
  "and_then m f = (case m of Inl e \<Rightarrow> Inl e | Inr x \<Rightarrow> f x)"

subsection \<open>The serializer and the getters\<close>

text \<open>
  \<open>href\<close> and \<open>toString()\<close> are the URL serializer of the Standard: the scheme and a colon;
  for a URL with a host, \<open>//\<close>, the credentials followed by \<open>@\<close> if there are any, the host
  and the port; for a URL without a host whose path starts with \<open>//\<close>, the characters \<open>/.\<close>;
  then the path, the query and the fragment. \<open>decimal\<close> writes a port.
\<close>

fun decimal :: "nat \<Rightarrow> string" where
  "decimal n = (if n < 10 then [char_of (48 + n)] else decimal (n div 10) @ [char_of (48 + n mod 10)])"

declare decimal.simps [simp del]

definition credentials_text :: "string \<Rightarrow> string \<Rightarrow> string" where
  "credentials_text user password =
     (if user = [] \<and> password = [] then []
      else user @ (if password = [] then [] else CHR '':'' # password) @ ''@'')"

definition port_text :: "nat option \<Rightarrow> string" where
  "port_text p = (case p of None \<Rightarrow> [] | Some n \<Rightarrow> CHR '':'' # decimal n)"

definition query_text :: "string option \<Rightarrow> string" where
  "query_text q = (case q of None \<Rightarrow> [] | Some s \<Rightarrow> CHR ''?'' # s)"

definition fragment_text :: "string option \<Rightarrow> string" where
  "fragment_text f = (case f of None \<Rightarrow> [] | Some s \<Rightarrow> CHR ''#'' # s)"

definition href :: "URL \<Rightarrow> string" where
  "href u =
     url_scheme u @ '':''
       @ (case url_host u of
            Some h \<Rightarrow> ''//'' @ credentials_text (url_username u) (url_password u) @ h
                        @ port_text (url_port u)
          | None \<Rightarrow> if startsWith (url_path u) ''//'' then ''/.'' else [])
       @ url_path u @ query_text (url_query u) @ fragment_text (url_fragment u)"

definition toString :: "URL \<Rightarrow> string" where
  "toString u = href u"

definition hostname :: "URL \<Rightarrow> string" where
  "hostname u = (case url_host u of None \<Rightarrow> [] | Some h \<Rightarrow> h)"

definition pathname :: "URL \<Rightarrow> string" where
  "pathname u = url_path u"

section \<open>lib/utils: URLs\<close>

text \<open>
  \<^verbatim>\<open>
  export function normalizeUrl(url: string): string {
    try {
      const urlObj = new URL(url.startsWith("http") ? url : `https://${url}`);
      return urlObj.href;
    } catch {
      return url;
    }
  }

  export function stripRefParam(url: string): string {
    const trimmed = url.trim();
    if (!trimmed) return url;
    try {
      const normalized = normalizeUrl(trimmed);
      const parsed = new URL(normalized);
      parsed.searchParams.delete("ref");
      return parsed.href;
    } catch {
      return url;
    }
  }
  \<close>
  The body of a \<open>try\<close> block is a function of its own, with suffix \<open>_try\<close>, whose result
  is the exception or the returned string; the \<open>catch\<close> block is the case distinction on it.
  The constructor is the only call that can throw, and every call of it stands in a \<open>try\<close>
  block; so the functions themselves return a string for every platform and every argument.
\<close>

definition normalizeUrl :: "platform \<Rightarrow> string \<Rightarrow> string" where
  "normalizeUrl P url =
     (case URL_new P (if startsWith url ''http'' then url else ''https://'' @ url) of
        Inr urlObj \<Rightarrow> href urlObj
      | Inl _ \<Rightarrow> url)"

definition stripRefParam_try :: "platform \<Rightarrow> string \<Rightarrow> url_error + string" where
  "stripRefParam_try P trimmed =
     and_then (URL_new P (normalizeUrl P trimmed)) (\<lambda>parsed.
       (let parsed = searchParams_delete P parsed ''ref''
        in Inr (href parsed)))"

definition stripRefParam :: "platform \<Rightarrow> string \<Rightarrow> string" where
  "stripRefParam P url =
     (let trimmed = trim url
      in if trimmed = [] then url
         else (case stripRefParam_try P trimmed of Inr r \<Rightarrow> r | Inl _ \<Rightarrow> url))"

section \<open>lib/storage: the comparison key\<close>

text \<open>
  \<^verbatim>\<open>
  function normalizeCompareUrl(url: string): string {
    const trimmed = url.trim();
    if (!trimmed) return url;
    try {
      const normalized = normalizeUrl(trimmed);
      const parsed = new URL(normalized);
      parsed.hostname = parsed.hostname.replace(/^www\./, "");
      parsed.hash = "";
      parsed.searchParams.delete("ref");
      Array.from(parsed.searchParams.keys()).forEach((key) => {
        if (key.toLowerCase().startsWith("utm_")) {
          parsed.searchParams.delete(key);
        }
      });
      if (parsed.pathname !== "/" && parsed.pathname.endsWith("/")) {
        parsed.pathname = parsed.pathname.slice(0, -1);
      }
      return parsed.toString();
    } catch {
      return url;
    }
  }
  \<close>
  \<open>remove_www_prefix\<close> is the replacement of \<^verbatim>\<open>/^www\./\<close> by the empty string, and
  \<open>delete_utm_keys\<close> is the \<open>forEach\<close> loop over the keys that were present when it started.
\<close>

definition remove_www_prefix :: "string \<Rightarrow> string" where
  "remove_www_prefix h = (if startsWith h ''www.'' then drop 4 h else h)"

fun delete_utm_keys :: "platform \<Rightarrow> URL \<Rightarrow> string list \<Rightarrow> URL" where
  "delete_utm_keys P parsed [] = parsed"
| "delete_utm_keys P parsed (key # keys) =
     delete_utm_keys P
       (if startsWith (toLowerCase key) ''utm_'' then searchParams_delete P parsed key else parsed)
       keys"

definition normalizeCompareUrl_try :: "platform \<Rightarrow> string \<Rightarrow> url_error + string" where
  "normalizeCompareUrl_try P trimmed =
     and_then (URL_new P (normalizeUrl P trimmed)) (\<lambda>parsed.
       (let parsed = set_hostname P parsed (remove_www_prefix (hostname parsed));
            parsed = set_hash P parsed [];
            parsed = searchParams_delete P parsed ''ref'';
            parsed = delete_utm_keys P parsed (searchParams_keys P parsed);
            parsed = (if pathname parsed \<noteq> ''/'' \<and> endsWith (pathname parsed) ''/''
                      then set_pathname P parsed (butlast (pathname parsed))
                      else parsed)
        in Inr (toString parsed)))"

definition normalizeCompareUrl :: "platform \<Rightarrow> string \<Rightarrow> string" where
  "normalizeCompareUrl P url =
     (let trimmed = trim url
      in if trimmed = [] then url
         else (case normalizeCompareUrl_try P trimmed of Inr r \<Rightarrow> r | Inl _ \<Rightarrow> url))"

section \<open>Metadata extraction: titles\<close>

text \<open>
  \<^verbatim>\<open>
  export function extractTitle(html: string, url: string): string {
    let match = html.match(/<meta[^>]*property=["']og:title["'][^>]*content=["']([^"']*)["']/i);
    if (match && match[1]) return decodeHtmlEntities(match[1]);
    match = html.match(/<meta[^>]*name=["']twitter:title["'][^>]*content=["']([^"']*)["']/i);
    if (match && match[1]) return decodeHtmlEntities(match[1]);
    match = html.match(/<title[^>]*>([^<]*)<\/title>/i);
    if (match && match[1]) return decodeHtmlEntities(match[1]);
    try {
      const urlObj = new URL(url);
      return urlObj.hostname.replace('www.', '');
    } catch {
      return 'Untitled';
    }
  }
  \<close>
  A match whose capture group is empty is falsy in \<open>match && match[1]\<close> and falls through
  to the next pattern.
\<close>

definition extractTitle :: "platform \<Rightarrow> string \<Rightarrow> string \<Rightarrow> string" where
  "extractTitle P html url =
     (case regex_match og_title_regex html of
        Some (c # cs) \<Rightarrow> decodeHtmlEntities (c # cs)
      | _ \<Rightarrow>
     (case regex_match twitter_title_regex html of
        Some (c # cs) \<Rightarrow> decodeHtmlEntities (c # cs)
      | _ \<Rightarrow>
     (case regex_match title_regex html of
        Some (c # cs) \<Rightarrow> decodeHtmlEntities (c # cs)
      | _ \<Rightarrow>
     (case URL_new P url of
        Inr urlObj \<Rightarrow> replace_first ''www.'' [] (hostname urlObj)
      | Inl _ \<Rightarrow> ''Untitled''))))"

section \<open>lib/types\<close>

text \<open>
  \<^verbatim>\<open>
  export interface Bookmark {
    id: string; url: string; title: string; description: string;
    icon?: string; image?: string; tags: string[]; collectionId: string;
    createdAt: number; updatedAt: number;
  }
  \<close>
  The fields that the sources guard with \<open>??\<close> or \<open>||\<close> (\<open>description\<close>, \<open>tags\<close>,
  \<open>createdAt\<close>, \<open>updatedAt\<close>) are optional in the model, as are the two that the interface
  declares optional. The fields \<open>id\<close> and \<open>image\<close> carry a prime, since their names are
  taken in HOL.
\<close>

record Bookmark =
  id' :: string
  url :: string
  title :: string
  description :: "string option"
  icon :: "string option"
  image' :: "string option"
  tags :: "string list option"
  collectionId :: string
  createdAt :: "int option"
  updatedAt :: "int option"

section \<open>lib/utils: search\<close>

text \<open>
  \<^verbatim>\<open>
  function normalizeSearchText(value: string): string {
    return value
      .toLowerCase()
      .normalize("NFD")
      .replace(/[\u0300-\u036f]/g, "")
      .replace(/[^a-z0-9]+/g, " ")
      .trim();
  }

  function matchesTokens(text: string, tokens: string[]): boolean {
    if (tokens.length === 0) return true;
    return tokens.every((token) => text.includes(token));
  }
  \<close>
  On code units up to U+00FF, canonical decomposition followed by the removal of the combining
  marks U+0300..U+036F replaces an accented Latin letter by its base letter and changes nothing
  else; this is \<open>strip_diacritics_char\<close>. \<open>collapse_runs\<close> replaces each maximal run of
  characters that satisfy the predicate by one copy of the replacement.
\<close>

definition strip_diacritics_char :: "char \<Rightarrow> char" where
  "strip_diacritics_char c =
     (let n = char_code c
      in if 0xC0 \<le> n \<and> n \<le> 0xC5 then CHR ''A'' else if n = 0xC7 then CHR ''C''
         else if 0xC8 \<le> n \<and> n \<le> 0xCB then CHR ''E'' else if 0xCC \<le> n \<and> n \<le> 0xCF then CHR ''I''
         else if n = 0xD1 then CHR ''N'' else if 0xD2 \<le> n \<and> n \<le> 0xD6 then CHR ''O''
         else if 0xD9 \<le> n \<and> n \<le> 0xDC then CHR ''U'' else if n = 0xDD then CHR ''Y''
         else if 0xE0 \<le> n \<and> n \<le> 0xE5 then CHR ''a'' else if n = 0xE7 then CHR ''c''
         else if 0xE8 \<le> n \<and> n \<le> 0xEB then CHR ''e'' else if 0xEC \<le> n \<and> n \<le> 0xEF then CHR ''i''
         else if n = 0xF1 then CHR ''n'' else if 0xF2 \<le> n \<and> n \<le> 0xF6 then CHR ''o''
         else if 0xF9 \<le> n \<and> n \<le> 0xFC then CHR ''u'' else if n = 0xFD \<or> n = 0xFF then CHR ''y''
         else c)"

fun collapse_runs :: "(char \<Rightarrow> bool) \<Rightarrow> string \<Rightarrow> bool \<Rightarrow> string \<Rightarrow> string" where
  "collapse_runs P r in_run [] = []"
| "collapse_runs P r in_run (c # cs) =
     (if P c then (if in_run then [] else r) @ collapse_runs P r True cs
      else c # collapse_runs P r False cs)"

definition normalizeSearchText :: "string \<Rightarrow> string" where
  "normalizeSearchText v =
     trim (collapse_runs (\<lambda>c. \<not> (is_ascii_lower c \<or> is_ascii_digit c)) '' '' False
             (map strip_diacritics_char (toLowerCase v)))"

definition matchesTokens :: "string \<Rightarrow> string list \<Rightarrow> bool" where
  "matchesTokens text tokens = (if length tokens = 0 then True else list_all (\<lambda>token. str_includes text token) tokens)"

text \<open>
  \<^verbatim>\<open>
  export function searchBookmarks(bookmarks: Bookmark[], query: string): Bookmark[] {
    const trimmedQuery = query.trim();
    if (!trimmedQuery) return bookmarks;

    const tagOnly =
      trimmedQuery.startsWith("#") || trimmedQuery.toLowerCase().startsWith("tag:");
    const rawTagQuery = tagOnly
      ? trimmedQuery.replace(/^#+/, "").replace(/^tag:/i, "").trim()
      : trimmedQuery;

    const normalizedQuery = normalizeSearchText(rawTagQuery);
    const tokens = normalizedQuery.split(/\s+/).filter(Boolean);
    if (tokens.length === 0) {
      if (!tagOnly) return bookmarks;
      return bookmarks.filter((bookmark) => (bookmark.tags ?? []).length > 0);
    }

    return bookmarks.filter((bookmark) => {
      const title = normalizeSearchText(bookmark.title);
      const url = normalizeSearchText(bookmark.url);
      const description = normalizeSearchText(bookmark.description || "");
      const tags = (bookmark.tags ?? []).map((tag) => normalizeSearchText(tag));
      const tagsText = tags.join(" ");

      if (tagOnly) {
        return matchesTokens(tagsText, tokens);
      }

      const combined = [title, url, description, tagsText].join(" ");
      if (matchesTokens(combined, tokens)) return true;

      if (tokens.length === 1) {
        const compactToken = tokens[0].replace(/\s+/g, "");
        if (!compactToken) return false;
        const compactCombined = combined.replace(/\s+/g, "");
        return compactCombined.includes(compactToken);
      }

      return false;
    });
  }
  \<close>
  \<open>split_whitespace\<close> is \<^verbatim>\<open>split(/\s+/).filter(Boolean)\<close>, \<open>remove_whitespace\<close> is
  \<^verbatim>\<open>replace(/\s+/g, "")\<close>, \<open>strip_tag_prefix\<close> is the chain of replacements that gives
  \<open>rawTagQuery\<close>, and \<open>bookmark_matches\<close> is the predicate of the last \<open>filter\<close>.
\<close>

definition split_whitespace :: "string \<Rightarrow> string list" where
  "split_whitespace s = filter (\<lambda>t. t \<noteq> []) (split_on is_js_space s)"

definition remove_whitespace :: "string \<Rightarrow> string" where
  "remove_whitespace s = filter (\<lambda>c. \<not> is_js_space c) s"

definition strip_tag_prefix :: "string \<Rightarrow> string" where
  "strip_tag_prefix s =
     (let s1 = dropWhile (\<lambda>c. c = CHR ''#'') s
      in trim (if map ascii_lower (take 4 s1) = ''tag:'' then drop 4 s1 else s1))"

definition bookmark_matches :: "bool \<Rightarrow> string list \<Rightarrow> Bookmark \<Rightarrow> bool" where
  "bookmark_matches tagOnly tokens bookmark =
     (let title = normalizeSearchText (title bookmark);
          url = normalizeSearchText (url bookmark);
          description = normalizeSearchText (case description bookmark of None \<Rightarrow> [] | Some d \<Rightarrow> d);
          tags = map normalizeSearchText (case tags bookmark of None \<Rightarrow> [] | Some ts \<Rightarrow> ts);
          tagsText = join '' '' tags;
          combined = join '' '' [title, url, description, tagsText]
      in if tagOnly then matchesTokens tagsText tokens
         else if matchesTokens combined tokens then True
         else if length tokens = 1 then
           (let compactToken = remove_whitespace (hd tokens)
            in if compactToken = [] then False
               else str_includes (remove_whitespace combined) compactToken)
         else False)"

definition searchBookmarks :: "Bookmark list \<Rightarrow> string \<Rightarrow> Bookmark list" where
  "searchBookmarks bookmarks query =
     (let trimmedQuery = trim query
      in if trimmedQuery = [] then bookmarks
         else (let tagOnly = (startsWith trimmedQuery ''#'' \<or> startsWith (toLowerCase trimmedQuery) ''tag:'');
                   rawTagQuery = (if tagOnly then strip_tag_prefix trimmedQuery else trimmedQuery);
                   normalizedQuery = normalizeSearchText rawTagQuery;
                   tokens = split_whitespace normalizedQuery
               in if length tokens = 0 then
                    (if \<not> tagOnly then bookmarks
                     else filter (\<lambda>bookmark. length (case tags bookmark of None \<Rightarrow> [] | Some ts \<Rightarrow> ts) > 0) bookmarks)
                  else filter (bookmark_matches tagOnly tokens) bookmarks))"

section \<open>lib/storage: deduplication\<close>

text \<open>
  \<^verbatim>\<open>
  function dedupeBookmarks(bookmarks: Bookmark[]): Bookmark[] {
    const byUrl = new Map<string, Bookmark>();
    for (const bookmark of bookmarks) {
      const normalized = normalizeCompareUrl(stripRefParam(bookmark.url));
      const existing = byUrl.get(normalized);
      const existingInDefault = existing?.collectionId === "default";
      const incomingInDefault = bookmark.collectionId === "default";
      const preferIncoming =
        !existing ||
        (existingInDefault && !incomingInDefault) ||
        ((existingInDefault === incomingInDefault) &&
          (bookmark.updatedAt ?? 0) > (existing.updatedAt ?? 0));
      if (preferIncoming) {
        byUrl.set(normalized, {
          ...bookmark,
          url: normalized,
          updatedAt: bookmark.updatedAt ?? Date.now(),
          createdAt: bookmark.createdAt ?? Date.now(),
        });
      }
    }
    return Array.from(byUrl.values());
  }
  \<close>
  The \<open>Map\<close> is an association list in insertion order: \<open>set\<close> on a key that is present
  replaces the value in place, as \<open>AList.update\<close> does. The platform \<open>P\<close> is passed on to
  the two functions that compute the key. The clock is a parameter: \<open>now n\<close>
  is what the call number \<open>n\<close> of \<open>Date.now()\<close> returns, and the loop carries the number of
  calls made so far. \<open>stored_copy\<close> is the object literal that is stored; it reads the clock
  once for each timestamp that is missing, \<open>updatedAt\<close> first.
\<close>

type_synonym clock = "nat \<Rightarrow> int"

definition preferIncoming :: "Bookmark option \<Rightarrow> Bookmark \<Rightarrow> bool" where
  "preferIncoming existing bookmark =
     (let existingInDefault = (map_option collectionId existing = Some ''default'');
          incomingInDefault = (collectionId bookmark = ''default'')
      in case existing of None \<Rightarrow> True
         | Some e \<Rightarrow>
             (existingInDefault \<and> \<not> incomingInDefault) \<or>
             ((existingInDefault = incomingInDefault) \<and>
              (case updatedAt bookmark of None \<Rightarrow> 0 | Some t \<Rightarrow> t)
                > (case updatedAt e of None \<Rightarrow> 0 | Some t \<Rightarrow> t)))"

definition stored_copy :: "clock \<Rightarrow> nat \<Rightarrow> string \<Rightarrow> Bookmark \<Rightarrow> Bookmark \<times> nat" where
  "stored_copy now n normalized bookmark =
     (let (updated, n1) = (case updatedAt bookmark of Some t \<Rightarrow> (t, n) | None \<Rightarrow> (now n, Suc n));
          (created, n2) = (case createdAt bookmark of Some t \<Rightarrow> (t, n1) | None \<Rightarrow> (now n1, Suc n1))
      in (bookmark\<lparr>url := normalized, updatedAt := Some updated, createdAt := Some created\<rparr>, n2))"

fun dedupe_loop :: "platform \<Rightarrow> clock \<Rightarrow> Bookmark list \<Rightarrow> (string \<times> Bookmark) list \<times> nat
                      \<Rightarrow> (string \<times> Bookmark) list \<times> nat" where
  "dedupe_loop P now [] (byUrl, n) = (byUrl, n)"
| "dedupe_loop P now (bookmark # rest) (byUrl, n) =
     (let normalized = normalizeCompareUrl P (stripRefParam P (url bookmark));
          existing = map_of byUrl normalized
      in if preferIncoming existing bookmark
         then (let (stored, n') = stored_copy now n normalized bookmark
               in dedupe_loop P now rest (AList.update normalized stored byUrl, n'))
         else dedupe_loop P now rest (byUrl, n))"

definition dedupeBookmarks :: "platform \<Rightarrow> clock \<Rightarrow> Bookmark list \<Rightarrow> Bookmark list" where
  "dedupeBookmarks P now bookmarks = map snd (fst (dedupe_loop P now bookmarks ([], 0)))"

section \<open>A reference implementation of the URL class\<close>

text \<open>
  \<open>reference\<close> is a platform that follows the URL Standard on a part of the URLs:
  \<^item> the input consists of ASCII characters;
  \<^item> the scheme is one of the special schemes \<open>ftp\<close>, \<open>http\<close>, \<open>https\<close>, \<open>ws\<close>,
    \<open>wss\<close>;
  \<^item> there are no credentials, and the host is a domain made of ASCII letters, digits, \<open>-\<close>
    and \<open>.\<close> that is neither an IPv4 address (it does not end in a number), nor an IPv6
    address, nor has a label that begins with \<open>xn--\<close>, nor contains \<open>%\<close>;
  \<^item> the path does not contain \<open>^\<close>, which the runtimes do not treat alike.

  On every other input the constructor of \<open>reference\<close> raises \<open>Unsupported\<close>, and its
  setters leave the URL unchanged. It raises \<open>TypeError\<close> only where the parser of the
  Standard fails: no scheme, an empty host, a forbidden host code point, a port that is not a
  number or exceeds 65535. \<open>reference\<close> serves two purposes: it shows that the laws
  \<open>conforming\<close> assumed of a platform below can be met, and it evaluates the functions of the
  sources on concrete URLs, all of which lie in the part described here. No general statement
  below is about \<open>reference\<close>.
\<close>

subsection \<open>Percent-encoding\<close>

text \<open>
  The percent-encode sets of the Standard, for ASCII input. A character of the set is replaced
  by \<open>%\<close> and two upper-case hexadecimal digits. The path percent-encode set is taken
  without \<open>^\<close>, which the parser below does not accept in a path.
\<close>

definition c0_control_set :: "char \<Rightarrow> bool" where
  "c0_control_set c = (char_code c < 0x20 \<or> 0x7E < char_code c)"

definition fragment_set :: "char \<Rightarrow> bool" where
  "fragment_set c = (c0_control_set c \<or> c \<in> set [CHR 0x20, CHR 0x22, CHR ''<'', CHR ''>'', CHR 0x60])"

definition query_set :: "char \<Rightarrow> bool" where
  "query_set c = (c0_control_set c \<or> c \<in> set [CHR 0x20, CHR 0x22, CHR ''#'', CHR ''<'', CHR ''>''])"

definition special_query_set :: "char \<Rightarrow> bool" where
  "special_query_set c = (query_set c \<or> c = CHR 0x27)"

definition path_set :: "char \<Rightarrow> bool" where
  "path_set c = (query_set c \<or> c \<in> set [CHR ''?'', CHR 0x60, CHR ''{'', CHR ''}''])"

definition urlencoded_set :: "char \<Rightarrow> bool" where
  "urlencoded_set c = (\<not> (is_ascii_alnum c \<or> c \<in> set ''*-._''))"

definition hex_digit :: "nat \<Rightarrow> char" where
  "hex_digit n = ''0123456789ABCDEF'' ! (n mod 16)"

definition percent_encode :: "char \<Rightarrow> string" where
  "percent_encode c = [CHR ''%'', hex_digit (char_code c div 16), hex_digit (char_code c mod 16)]"

definition encode_with :: "(char \<Rightarrow> bool) \<Rightarrow> string \<Rightarrow> string" where
  "encode_with S s = concat (map (\<lambda>c. if S c then percent_encode c else [c]) s)"

definition hex_value :: "char \<Rightarrow> nat" where
  "hex_value c =
     (if is_ascii_digit c then char_code c - 0x30
      else if 0x41 \<le> char_code c \<and> char_code c \<le> 0x46 then char_code c - 0x37
      else char_code c - 0x57)"

fun percent_decode :: "string \<Rightarrow> string" where
  "percent_decode (c # h # l # rest) =
     (if c = CHR ''%'' \<and> is_ascii_hex h \<and> is_ascii_hex l
      then char_of (16 * hex_value h + hex_value l) # percent_decode rest
      else c # percent_decode (h # l # rest))"
| "percent_decode s = s"

subsection \<open>Hosts and ports\<close>

text \<open>
  The host parser for a special scheme: the domain is lower-cased, and it fails on a forbidden
  domain code point. A domain that ends in a number is an IPv4 address in the Standard; its last
  label, a trailing dot apart, then consists of digits, or of \<open>0x\<close> and hexadecimal digits.
\<close>

definition forbidden_domain :: "char \<Rightarrow> bool" where
  "forbidden_domain c =
     (char_code c \<le> 0x20 \<or> char_code c = 0x7F \<or> c = CHR 0x5C \<or> c \<in> set ''#/:<>?@[]^|%'')"

definition host_char :: "char \<Rightarrow> bool" where
  "host_char c = (is_ascii_lower c \<or> is_ascii_digit c \<or> c = CHR ''-'' \<or> c = CHR ''.'')"

definition is_dot :: "char \<Rightarrow> bool" where
  "is_dot c = (c = CHR ''.'')"

definition last_label :: "string \<Rightarrow> string" where
  "last_label d = last (split_on is_dot (if endsWith d ''.'' then butlast d else d))"

definition ends_in_number :: "string \<Rightarrow> bool" where
  "ends_in_number d =
     (let l = last_label d
      in l \<noteq> [] \<and> (list_all is_ascii_digit l \<or> (startsWith l ''0x'' \<and> list_all is_ascii_hex (drop 2 l))))"

definition has_punycode_label :: "string \<Rightarrow> bool" where
  "has_punycode_label d = (startsWith d ''xn--'' \<or> str_includes d ''.xn--'')"

definition host_parse :: "string \<Rightarrow> url_error + string" where
  "host_parse input =
     (let d = map ascii_lower input
      in if input = [] then Inl TypeError
         else if \<exists>c\<in>set input. 0x80 \<le> char_code c \<or> c = CHR ''%'' then Inl Unsupported
         else if hd input = CHR ''['' then Inl Unsupported
         else if has_punycode_label d then Inl Unsupported
         else if \<exists>c\<in>set d. forbidden_domain c then Inl TypeError
         else if \<exists>c\<in>set d. \<not> host_char c then Inl Unsupported
         else if ends_in_number d then Inl Unsupported
         else Inr d)"

text \<open>
  The port is a sequence of digits, at most 65535; the default port of the scheme is stored as
  no port.
\<close>

definition special_schemes :: "string list" where
  "special_schemes = [''ftp'', ''http'', ''https'', ''ws'', ''wss'']"

definition default_port :: "string \<Rightarrow> nat option" where
  "default_port sch =
     map_of [(''ftp'', 21), (''http'', 80), (''https'', 443), (''ws'', 80), (''wss'', 443)] sch"

definition decimal_value :: "string \<Rightarrow> nat" where
  "decimal_value p = foldl (\<lambda>a c. 10 * a + (char_code c - 0x30)) 0 p"

definition parse_port :: "string \<Rightarrow> string \<Rightarrow> url_error + nat option" where
  "parse_port sch p =
     (if p = [] then Inr None
      else if \<exists>c\<in>set p. \<not> is_ascii_digit c then Inl TypeError
      else if 65535 < decimal_value p then Inl TypeError
      else if default_port sch = Some (decimal_value p) then Inr None
      else Inr (Some (decimal_value p)))"

text \<open>
  The authority, that is host and port: the text up to the first \<open>/\<close>, backslash,
  \<open>?\<close> or \<open>#\<close>. The host ends at the first colon.
\<close>

definition is_slash :: "char \<Rightarrow> bool" where
  "is_slash c = (c = CHR ''/'' \<or> c = CHR 0x5C)"

definition is_colon :: "char \<Rightarrow> bool" where
  "is_colon c = (c = CHR '':'')"

definition is_hash :: "char \<Rightarrow> bool" where
  "is_hash c = (c = CHR ''#'')"

definition is_question :: "char \<Rightarrow> bool" where
  "is_question c = (c = CHR ''?'')"

definition parse_authority :: "string \<Rightarrow> string \<Rightarrow> url_error + (string \<times> nat option)" where
  "parse_authority sch a =
     (if \<exists>c\<in>set a. c \<in> set ''@[]'' then Inl Unsupported
      else and_then (host_parse (before is_colon a)) (\<lambda>h.
           and_then (parse_port sch (case after is_colon a of None \<Rightarrow> [] | Some p \<Rightarrow> p)) (\<lambda>p.
           Inr (h, p))))"

subsection \<open>Paths\<close>

text \<open>
  The path state of the parser, for a special scheme: the segments are separated by \<open>/\<close> or
  a backslash and are percent-encoded; a segment \<open>.\<close> is dropped and a segment \<open>..\<close> removes
  the segment before it, and either leaves an empty segment when it comes last. The argument of
  \<open>path_state\<close> is the path collected so far.
\<close>

definition single_dot :: "string \<Rightarrow> bool" where
  "single_dot b = (map ascii_lower b \<in> set [''.'', ''%2e''])"

definition double_dot :: "string \<Rightarrow> bool" where
  "double_dot b = (map ascii_lower b \<in> set [''..'', ''.%2e'', ''%2e.'', ''%2e%2e''])"

definition shorten :: "string list \<Rightarrow> string list" where
  "shorten p = butlast p"

fun path_state :: "string list \<Rightarrow> string list \<Rightarrow> string list" where
  "path_state p [] = p"
| "path_state p (seg # rest) =
     (let buffer = encode_with path_set seg
      in if double_dot buffer then path_state (shorten p @ (if rest = [] then [[]] else [])) rest
         else if single_dot buffer then path_state (p @ (if rest = [] then [[]] else [])) rest
         else path_state (p @ [buffer]) rest)"

definition parse_path :: "string \<Rightarrow> string list" where
  "parse_path s =
     path_state [] (split_on is_slash (case s of [] \<Rightarrow> [] | c # r \<Rightarrow> if is_slash c then r else s))"

subsection \<open>The parser\<close>

text \<open>
  \<open>new URL(input)\<close>, without a base URL. Leading and trailing C0 controls and spaces are
  stripped and every tab and newline is removed. The scheme is the text up to the first colon;
  for a special scheme any number of slashes and backslashes may follow it. The fragment starts
  at the first \<open>#\<close>, the query at the first \<open>?\<close> in front of that. The parser builds
  the URL record of the Standard, whose path is the list of its segments.
\<close>

definition strip_c0_space :: "string \<Rightarrow> string" where
  "strip_c0_space s =
     rev (dropWhile (\<lambda>c. char_code c \<le> 0x20) (rev (dropWhile (\<lambda>c. char_code c \<le> 0x20) s)))"

definition remove_tab_newline :: "string \<Rightarrow> string" where
  "remove_tab_newline s = filter (\<lambda>c. char_code c \<notin> {0x09, 0x0A, 0x0D}) s"

definition is_scheme_char :: "char \<Rightarrow> bool" where
  "is_scheme_char c = (is_ascii_alnum c \<or> c \<in> set ''+-.'')"

definition split_scheme :: "string \<Rightarrow> (string \<times> string) option" where
  "split_scheme s =
     (case s of [] \<Rightarrow> None
      | c # _ \<Rightarrow>
          if \<not> is_ascii_alpha c then None
          else (case dropWhile is_scheme_char s of [] \<Rightarrow> None
                | d # rest \<Rightarrow>
                    if d = CHR '':'' then Some (map ascii_lower (takeWhile is_scheme_char s), rest)
                    else None))"

record url_record =
  rec_scheme :: string
  rec_host :: string
  rec_port :: "nat option"
  rec_path :: "string list"
  rec_query :: "string option"
  rec_fragment :: "string option"

definition url_parser :: "string \<Rightarrow> url_error + url_record" where
  "url_parser input =
     (let s = remove_tab_newline (strip_c0_space input)
      in if \<exists>c\<in>set s. 0x80 \<le> char_code c then Inl Unsupported
         else (case split_scheme s of None \<Rightarrow> Inl TypeError
               | Some (sch, rest) \<Rightarrow>
                   if sch \<notin> set special_schemes then Inl Unsupported
                   else (let r = dropWhile is_slash rest;
                             r1 = before is_hash r;
                             r2 = before is_question r1
                         in if CHR ''^'' \<in> set (dropWhile (\<lambda>c. \<not> is_slash c) r2) then Inl Unsupported
                            else and_then (parse_authority sch (before is_slash r2)) (\<lambda>(h, p).
                              Inr \<lparr>rec_scheme = sch, rec_host = h, rec_port = p,
                                   rec_path = parse_path (dropWhile (\<lambda>c. \<not> is_slash c) r2),
                                   rec_query = map_option (encode_with special_query_set) (after is_question r1),
                                   rec_fragment = map_option (encode_with fragment_set) (after is_hash r)\<rparr>))))"

text \<open>
  The state of the \<open>URL\<close> object that the constructor builds from the parsed record: the
  path is serialized, and there are no credentials.
\<close>

definition path_text :: "string list \<Rightarrow> string" where
  "path_text p = concat (map (\<lambda>seg. CHR ''/'' # seg) p)"

definition to_URL :: "url_record \<Rightarrow> URL" where
  "to_URL r =
     \<lparr>url_scheme = rec_scheme r, url_username = [], url_password = [],
      url_host = Some (rec_host r), url_port = rec_port r, url_path = path_text (rec_path r),
      url_query = rec_query r, url_fragment = rec_fragment r\<rparr>"

definition ref_URL_new :: "string \<Rightarrow> url_error + URL" where
  "ref_URL_new input = and_then (url_parser input) (\<lambda>r. Inr (to_URL r))"

subsection \<open>The setters\<close>

text \<open>
  A setter runs the parser on the given value in the state that belongs to the component, and
  leaves the URL as it is when the parser fails. The host name ends at the first \<open>/\<close>,
  backslash, \<open>?\<close> or \<open>#\<close>, and a colon makes the setter fail. The setter of \<open>hash\<close>
  removes the fragment when the value is empty and otherwise drops one leading \<open>#\<close>. The
  setter of \<open>pathname\<close> treats \<open>?\<close> and \<open>#\<close> as characters of the path.
\<close>

definition is_host_end :: "char \<Rightarrow> bool" where
  "is_host_end c = (is_slash c \<or> c \<in> set ''?#:'')"

definition ref_set_hostname :: "URL \<Rightarrow> string \<Rightarrow> URL" where
  "ref_set_hostname u v =
     (let s = remove_tab_newline v
      in if map is_colon (take 1 (dropWhile (\<lambda>c. \<not> is_host_end c) s)) = [True] then u
         else (case host_parse (before is_host_end s) of
                 Inr h \<Rightarrow> u\<lparr>url_host := Some h\<rparr>
               | Inl _ \<Rightarrow> u))"

definition ref_set_hash :: "URL \<Rightarrow> string \<Rightarrow> URL" where
  "ref_set_hash u v =
     (if v = [] then u\<lparr>url_fragment := None\<rparr>
      else (let s = remove_tab_newline (if hd v = CHR ''#'' then tl v else v)
            in if \<exists>c\<in>set s. 0x80 \<le> char_code c then u
               else u\<lparr>url_fragment := Some (encode_with fragment_set s)\<rparr>))"

definition ref_set_pathname :: "URL \<Rightarrow> string \<Rightarrow> URL" where
  "ref_set_pathname u v =
     (let s = remove_tab_newline v
      in if \<exists>c\<in>set s. 0x80 \<le> char_code c \<or> c = CHR ''^'' then u
         else u\<lparr>url_path := path_text (parse_path s)\<rparr>)"

subsection \<open>The query parameters\<close>

text \<open>
  The parser and the serializer of \<open>application/x-www-form-urlencoded\<close>. The parser cuts the
  query at every \<open>&\<close>, drops the empty pieces, cuts each piece at its first \<open>=\<close>, and
  decodes \<open>+\<close> and the percent-escapes of name and value; a decoded byte is kept as the code
  unit of the same number. \<open>delete\<close> removes every pair with the given name and stores the
  serialization of the remaining list as the new query, or no query when that is empty.
\<close>

definition is_ampersand :: "char \<Rightarrow> bool" where
  "is_ampersand c = (c = CHR ''&'')"

definition is_equals :: "char \<Rightarrow> bool" where
  "is_equals c = (c = CHR ''='')"

definition urlencoded_decode :: "string \<Rightarrow> string" where
  "urlencoded_decode s = percent_decode (map (\<lambda>c. if c = CHR ''+'' then CHR 0x20 else c) s)"

definition urlencoded_parse :: "string \<Rightarrow> (string \<times> string) list" where
  "urlencoded_parse q =
     map (\<lambda>b. (urlencoded_decode (before is_equals b),
                urlencoded_decode (case after is_equals b of None \<Rightarrow> [] | Some v \<Rightarrow> v)))
         (filter (\<lambda>b. b \<noteq> []) (split_on is_ampersand q))"

definition urlencoded_encode :: "string \<Rightarrow> string" where
  "urlencoded_encode s =
     concat (map (\<lambda>c. if c = CHR 0x20 then ''+'' else if urlencoded_set c then percent_encode c else [c]) s)"

definition urlencoded_serialize :: "(string \<times> string) list \<Rightarrow> string" where
  "urlencoded_serialize l = join ''&'' (map (\<lambda>(n, v). urlencoded_encode n @ ''='' @ urlencoded_encode v) l)"

definition ref_searchParams_delete :: "URL \<Rightarrow> string \<Rightarrow> URL" where
  "ref_searchParams_delete u name =
     (let l = urlencoded_parse (case url_query u of None \<Rightarrow> [] | Some q \<Rightarrow> q);
          serializedQuery = urlencoded_serialize (filter (\<lambda>(n, v). n \<noteq> name) l)
      in u\<lparr>url_query := (if serializedQuery = [] then None else Some serializedQuery)\<rparr>)"

definition ref_searchParams_keys :: "URL \<Rightarrow> string list" where
  "ref_searchParams_keys u = map fst (urlencoded_parse (case url_query u of None \<Rightarrow> [] | Some q \<Rightarrow> q))"

subsection \<open>The platform\<close>

definition reference :: platform where
  "reference =
     \<lparr>URL_new = ref_URL_new, set_hostname = ref_set_hostname, set_hash = ref_set_hash,
      set_pathname = ref_set_pathname, searchParams_delete = ref_searchParams_delete,
      searchParams_keys = ref_searchParams_keys, urlencoded_parser = urlencoded_parse,
      urlencoded_serializer = urlencoded_serialize\<rparr>"

section \<open>Auxiliary notions\<close>

text \<open>
  What follows is not part of the sources. \<open>stored_ok\<close> is the invariant of the map of
  \<open>dedupeBookmarks\<close>. \<open>spec_has_scheme\<close> renders the words of the specification, ``the
  reference already has a scheme'', with the scheme syntax of the URL Standard.
  \<open>example_clock\<close> and \<open>example_bookmark\<close> build the concrete inputs of the examples.
\<close>

definition stored_ok :: "(string \<times> Bookmark) list \<Rightarrow> bool" where
  "stored_ok al = (distinct (map fst al) \<and> (\<forall>(k, r)\<in>set al. url r = k \<and> updatedAt r \<noteq> None))"

definition spec_has_scheme :: "string \<Rightarrow> bool" where
  "spec_has_scheme s = (split_scheme s \<noteq> None)"

definition example_clock :: clock where
  "example_clock n = 1700000000000 + int n"

definition example_bookmark :: "string \<Rightarrow> string \<Rightarrow> string \<Rightarrow> int option \<Rightarrow> Bookmark" where
  "example_bookmark i u c t =
     \<lparr>id' = i, url = u, title = ''Example'', description = Some [], icon = None, image' = None,
      tags = Some [], collectionId = c, createdAt = None, updatedAt = t\<rparr>"

subsection \<open>What is assumed of a platform\<close>

text \<open>
  \<open>produced P u\<close>: the platform \<open>P\<close> can build a \<open>URL\<close> object in state \<open>u\<close>, with its
  constructor and the operations that the sources use. \<open>web u\<close>: the URL has the scheme
  \<open>http\<close> or \<open>https\<close>, and a host. \<open>searchParams P u\<close> is the list of name-value pairs
  of \<open>u\<close>, and \<open>query_of P l\<close> is the query that the platform stores for the list \<open>l\<close>:
  its serialization, or no query when that is empty.
\<close>

inductive produced :: "platform \<Rightarrow> URL \<Rightarrow> bool" for P :: platform where
  constructed: "URL_new P s = Inr u \<Longrightarrow> produced P u"
| hostname_set: "produced P u \<Longrightarrow> produced P (set_hostname P u v)"
| hash_set: "produced P u \<Longrightarrow> produced P (set_hash P u v)"
| pathname_set: "produced P u \<Longrightarrow> produced P (set_pathname P u v)"
| deleted: "produced P u \<Longrightarrow> produced P (searchParams_delete P u name)"

definition web :: "URL \<Rightarrow> bool" where
  "web u = (url_scheme u \<in> {''http'', ''https''} \<and> url_host u \<noteq> None)"

definition searchParams :: "platform \<Rightarrow> URL \<Rightarrow> (string \<times> string) list" where
  "searchParams P u = urlencoded_parser P (case url_query u of None \<Rightarrow> [] | Some q \<Rightarrow> q)"

definition query_of :: "platform \<Rightarrow> (string \<times> string) list \<Rightarrow> string option" where
  "query_of P l =
     (let serializedQuery = urlencoded_serializer P l
      in if serializedQuery = [] then None else Some serializedQuery)"

definition canonical_host :: "string \<Rightarrow> string" where
  "canonical_host h = (if remove_www_prefix h = [] then h else remove_www_prefix h)"

definition canonical_path :: "string \<Rightarrow> string" where
  "canonical_path p = (if p \<noteq> ''/'' \<and> endsWith p ''/'' then butlast p else p)"

text \<open>
  \<open>conforming P\<close> collects what the URL Standard prescribes for the operations that the
  sources apply to an \<open>http\<close> or \<open>https\<close> URL:
  \<^item> parsing the serialization of name-value pairs gives the pairs back;
  \<^item> parsing the serialization of a URL gives the URL back, and the serialization has no
    white space at its ends;
  \<^item> setting the host name to the current host name without a leading \<open>www.\<close> stores that
    host, unless it is empty, when the host stays;
  \<^item> setting \<open>hash\<close> to the empty string removes the fragment;
  \<^item> \<open>delete\<close> removes the pairs with the given name and stores the query of the remaining
    list, and \<open>keys\<close> are the names of the pairs;
  \<^item> setting the path name to the current path name without its final slash stores that path.

  Each setter leaves the other components alone.
\<close>

definition conforming :: "platform \<Rightarrow> bool" where
  "conforming P =
     ((\<forall>l. urlencoded_parser P (urlencoded_serializer P l) = l) \<and>
      (\<forall>u. produced P u \<and> web u \<longrightarrow>
         URL_new P (href u) = Inr u \<and>
         trim (href u) = href u \<and>
         set_hostname P u (remove_www_prefix (hostname u))
           = u\<lparr>url_host := Some (canonical_host (hostname u))\<rparr> \<and>
         set_hash P u [] = u\<lparr>url_fragment := None\<rparr> \<and>
         (\<forall>name. searchParams_delete P u name
                   = u\<lparr>url_query := query_of P (filter (\<lambda>p. fst p \<noteq> name) (searchParams P u))\<rparr>) \<and>
         searchParams_keys P u = map fst (searchParams P u) \<and>
         (pathname u \<noteq> ''/'' \<and> endsWith (pathname u) ''/'' \<longrightarrow>
            set_pathname P u (butlast (pathname u)) = u\<lparr>url_path := butlast (pathname u)\<rparr>)))"

subsection \<open>Canonical forms\<close>

text \<open>
  \<open>untracked p\<close>: \<open>normalizeCompareUrl\<close> keeps the query parameter \<open>p\<close>.
  \<open>canonical_record P u\<close> is the URL that \<open>normalizeCompareUrl\<close> serializes when the URL it
  parsed is \<open>u\<close>. \<open>parses_to_web P t u\<close>: the two functions, given the trimmed input \<open>t\<close>,
  parse it to the \<open>http\<close> or \<open>https\<close> URL \<open>u\<close>. \<open>unparsable P t\<close>: both parse attempts
  that they make on \<open>t\<close> throw.
\<close>

definition utm_key :: "string \<Rightarrow> bool" where
  "utm_key k = startsWith (toLowerCase k) ''utm_''"

definition untracked :: "string \<times> string \<Rightarrow> bool" where
  "untracked p = (fst p \<noteq> ''ref'' \<and> \<not> startsWith (toLowerCase (fst p)) ''utm_'')"

definition canonical_record :: "platform \<Rightarrow> URL \<Rightarrow> URL" where
  "canonical_record P u =
     u\<lparr>url_host := Some (canonical_host (hostname u)), url_path := canonical_path (url_path u),
       url_query := query_of P (filter untracked (searchParams P u)), url_fragment := None\<rparr>"

definition parses_to_web :: "platform \<Rightarrow> string \<Rightarrow> URL \<Rightarrow> bool" where
  "parses_to_web P t u = (t \<noteq> [] \<and> URL_new P (normalizeUrl P t) = Inr u \<and> web u)"

definition unparsable :: "platform \<Rightarrow> string \<Rightarrow> bool" where
  "unparsable P t =
     (isl (URL_new P (if startsWith t ''http'' then t else ''https://'' @ t)) \<and> isl (URL_new P t))"

text \<open>
  \<open>stable_form P y\<close>: the string \<open>y\<close> parses to a URL whose host name has no prefix
  \<open>www.\<close> and whose path has no trailing slash to remove. \<open>decorated P u u'\<close>: the URL
  \<open>u'\<close> is \<open>u\<close> with, possibly, one more \<open>www.\<close> in front of the host, one more slash at
  the end of the path, another fragment, and other query parameters that \<open>normalizeCompareUrl\<close>
  deletes.
\<close>

definition stable_form :: "platform \<Rightarrow> string \<Rightarrow> bool" where
  "stable_form P y =
     (case URL_new P y of Inl _ \<Rightarrow> False
      | Inr v \<Rightarrow> \<not> startsWith (hostname v) ''www.'' \<and>
                \<not> (pathname v \<noteq> ''/'' \<and> endsWith (pathname v) ''/''))"

definition decorated :: "platform \<Rightarrow> URL \<Rightarrow> URL \<Rightarrow> bool" where
  "decorated P u u' =
     (url_scheme u' = url_scheme u \<and> url_username u' = url_username u \<and>
      url_password u' = url_password u \<and> url_port u' = url_port u \<and>
      (url_host u' = url_host u \<or>
       (url_host u' = Some (''www.'' @ hostname u) \<and> hostname u \<noteq> [] \<and>
        \<not> startsWith (hostname u) ''www.'')) \<and>
      (url_path u' = url_path u \<or>
       (url_path u' = url_path u @ ''/'' \<and>
        (url_path u = ''/'' \<or> (url_path u \<noteq> [] \<and> \<not> endsWith (url_path u) ''/'')))) \<and>
      filter untracked (searchParams P u') = filter untracked (searchParams P u))"

subsection \<open>Evaluation\<close>

text \<open>
  \<open>then_with u k\<close> is \<open>k u\<close>. The examples are evaluated with an equation for
  \<open>normalizeCompareUrl_try\<close> in which every statement is \<open>then_with\<close> applied to the object
  that the statement leaves and to the rest of the body, and \<open>then_with\<close> is unfolded only
  once the object has been computed.
\<close>

definition then_with :: "URL \<Rightarrow> (URL \<Rightarrow> 'a) \<Rightarrow> 'a" where
  "then_with u k = k u"

section \<open>Well-formed URL records\<close>

text \<open>
  \<open>wf_url\<close> describes the records that the parser of \<open>reference\<close> returns: serializing and
  parsing such a record gives it back.
\<close>

definition wf_host :: "string \<Rightarrow> bool" where
  "wf_host h = (h \<noteq> [] \<and> list_all host_char h \<and> \<not> has_punycode_label h \<and> \<not> ends_in_number h)"

definition wf_port :: "string \<Rightarrow> nat option \<Rightarrow> bool" where
  "wf_port sch p = (case p of None \<Rightarrow> True | Some n \<Rightarrow> n \<le> 65535 \<and> default_port sch \<noteq> Some n)"

definition wf_segment :: "string \<Rightarrow> bool" where
  "wf_segment seg =
     (list_all (\<lambda>c. \<not> path_set c \<and> \<not> is_slash c \<and> c \<noteq> CHR ''^'') seg \<and>
      \<not> single_dot seg \<and> \<not> double_dot seg)"

definition wf_path :: "string list \<Rightarrow> bool" where
  "wf_path p = (p \<noteq> [] \<and> list_all wf_segment p)"

definition wf_query :: "string option \<Rightarrow> bool" where
  "wf_query q = (case q of None \<Rightarrow> True | Some s \<Rightarrow> list_all (\<lambda>c. \<not> special_query_set c) s)"

definition wf_fragment :: "string option \<Rightarrow> bool" where
  "wf_fragment f = (case f of None \<Rightarrow> True | Some s \<Rightarrow> list_all (\<lambda>c. \<not> fragment_set c) s)"

definition wf_url :: "url_record \<Rightarrow> bool" where
  "wf_url u =
     (rec_scheme u \<in> set special_schemes \<and> wf_host (rec_host u) \<and>
      wf_port (rec_scheme u) (rec_port u) \<and> wf_path (rec_path u) \<and>
      wf_query (rec_query u) \<and> wf_fragment (rec_fragment u))"

definition url_char :: "char \<Rightarrow> bool" where
  "url_char c = (0x20 < char_code c \<and> char_code c < 0x7F)"

definition form_char :: "char \<Rightarrow> bool" where
  "form_char c = (is_ascii_alnum c \<or> c \<in> set ''*-._+%'')"

section \<open>Equations for evaluation\<close>

lemma then_with_record [code]:
  "then_with \<lparr>url_scheme = a, url_username = b, url_password = c, url_host = d, url_port = e,
              url_path = f, url_query = g, url_fragment = h\<rparr> k =
     k \<lparr>url_scheme = a, url_username = b, url_password = c, url_host = d, url_port = e,
         url_path = f, url_query = g, url_fragment = h\<rparr>"
  by (simp add: then_with_def)

lemma normalizeCompareUrl_try_statements [code]:
  "normalizeCompareUrl_try P trimmed =
     and_then (URL_new P (normalizeUrl P trimmed)) (\<lambda>parsed.
       then_with (set_hostname P parsed (remove_www_prefix (hostname parsed))) (\<lambda>parsed.
       then_with (set_hash P parsed []) (\<lambda>parsed.
       then_with (searchParams_delete P parsed ''ref'') (\<lambda>parsed.
       then_with (delete_utm_keys P parsed (searchParams_keys P parsed)) (\<lambda>parsed.
       then_with (if pathname parsed \<noteq> ''/'' \<and> endsWith (pathname parsed) ''/''
                  then set_pathname P parsed (butlast (pathname parsed))
                  else parsed) (\<lambda>parsed.
       Inr (toString parsed)))))))"
  by (simp add: normalizeCompareUrl_try_def then_with_def Let_def)

lemma stripRefParam_try_statements [code]:
  "stripRefParam_try P trimmed =
     and_then (URL_new P (normalizeUrl P trimmed)) (\<lambda>parsed.
       then_with (searchParams_delete P parsed ''ref'') (\<lambda>parsed.
       Inr (href parsed)))"
  by (simp add: stripRefParam_try_def then_with_def Let_def)

section \<open>Properties of the deduplication loop\<close>

lemma stored_copy_fields:
  "fst (stored_copy now n k b) =
     b\<lparr>url := k,
       updatedAt := Some (case updatedAt b of Some t \<Rightarrow> t | None \<Rightarrow> now n),
       createdAt := Some (case createdAt b of Some t \<Rightarrow> t
                          | None \<Rightarrow> now (if updatedAt b = None then Suc n else n))\<rparr>"
  by (simp add: stored_copy_def split: option.splits)

lemma set_update_cases:
  "(k', r) \<in> set (AList.update k v al) \<Longrightarrow> (k', r) = (k, v) \<or> (k', r) \<in> set al"
  by (induction al) (auto split: if_splits)

lemma length_update_le: "length (AList.update k v al) \<le> Suc (length al)"
  by (induction al) auto

lemma dedupe_loop_append:
  "dedupe_loop P now (xs @ ys) st = dedupe_loop P now ys (dedupe_loop P now xs st)"
proof (induction xs arbitrary: st)
  case Nil
  then show ?case by (cases st) simp
next
  case (Cons x xs)
  then show ?case by (cases st) (simp add: Let_def case_prod_beta)
qed

lemma dedupe_loop_invariant:
  assumes init: "Inv byUrl"
    and step: "\<And>al b n. Inv al \<Longrightarrow> b \<in> set bs \<Longrightarrow>
                 Inv (AList.update (normalizeCompareUrl P (stripRefParam P (url b)))
                      (fst (stored_copy now n (normalizeCompareUrl P (stripRefParam P (url b))) b)) al)"
  shows "Inv (fst (dedupe_loop P now bs (byUrl, n)))"
  using init step
proof (induction bs arbitrary: byUrl n)
  case Nil
  then show ?case by simp
next
  case (Cons b bs)
  let ?k = "normalizeCompareUrl P (stripRefParam P (url b))"
  show ?case
  proof (cases "preferIncoming (map_of byUrl ?k) b")
    case True
    have "Inv (AList.update ?k (fst (stored_copy now n ?k b)) byUrl)"
      using Cons.prems by simp
    then have "Inv (fst (dedupe_loop P now bs
                 (AList.update ?k (fst (stored_copy now n ?k b)) byUrl, snd (stored_copy now n ?k b))))"
      using Cons.prems(2) by (intro Cons.IH) auto
    with True show ?thesis by (simp add: Let_def case_prod_beta)
  next
    case False
    have "Inv (fst (dedupe_loop P now bs (byUrl, n)))"
      using Cons.prems by (intro Cons.IH) auto
    with False show ?thesis by (simp add: Let_def)
  qed
qed

lemma dedupe_loop_length:
  "length (fst (dedupe_loop P now bs (byUrl, n))) \<le> length byUrl + length bs"
proof (induction bs arbitrary: byUrl n)
  case Nil
  then show ?case by simp
next
  case (Cons b bs)
  let ?k = "normalizeCompareUrl P (stripRefParam P (url b))"
  have upd: "length (AList.update ?k v byUrl) \<le> Suc (length byUrl)" for v
    by (rule length_update_le)
  show ?case
  proof (cases "preferIncoming (map_of byUrl ?k) b")
    case True
    have "length (fst (dedupe_loop P now bs
            (AList.update ?k (fst (stored_copy now n ?k b)) byUrl, snd (stored_copy now n ?k b))))
          \<le> length (AList.update ?k (fst (stored_copy now n ?k b)) byUrl) + length bs"
      by (rule Cons.IH)
    also have "\<dots> \<le> Suc (length byUrl) + length bs"
      using upd by simp
    finally show ?thesis using True by (simp add: Let_def case_prod_beta)
  next
    case False
    then show ?thesis using Cons.IH [of byUrl n] by (simp add: Let_def)
  qed
qed

lemma stored_ok_update:
  assumes "stored_ok al"
  shows "stored_ok (AList.update k (fst (stored_copy now n k b)) al)"
proof -
  have "distinct (map fst (AList.update k (fst (stored_copy now n k b)) al))"
    using assms by (simp add: stored_ok_def AList.distinct_update)
  moreover have "url r = k' \<and> updatedAt r \<noteq> None"
    if "(k', r) \<in> set (AList.update k (fst (stored_copy now n k b)) al)" for k' r
    using set_update_cases [OF that] assms by (auto simp: stored_ok_def stored_copy_fields)
  ultimately show ?thesis
    unfolding stored_ok_def by blast
qed

lemma dedupe_keys_invariant: "stored_ok (fst (dedupe_loop P now bs ([], 0)))"
  by (rule dedupe_loop_invariant [where Inv = stored_ok]) (simp_all add: stored_ok_def [of "[]"] stored_ok_update)

lemma map_url_stored:
  assumes "\<forall>(k, r)\<in>set al. url r = k"
  shows "map url (map snd al) = map fst al"
  using assms by (induction al) auto

lemma dedupe_loop_keys:
  "fst ` set (fst (dedupe_loop P now bs (byUrl, n))) =
     fst ` set byUrl \<union> (\<lambda>b. normalizeCompareUrl P (stripRefParam P (url b))) ` set bs"
proof (induction bs arbitrary: byUrl n)
  case Nil
  then show ?case by simp
next
  case (Cons b bs)
  let ?k = "normalizeCompareUrl P (stripRefParam P (url b))"
  show ?case
  proof (cases "preferIncoming (map_of byUrl ?k) b")
    case True
    have "fst ` set (AList.update ?k v byUrl) = insert ?k (fst ` set byUrl)" for v
      using AList.dom_update [of ?k v byUrl] by (simp add: dom_map_of_conv_image_fst)
    with True Cons.IH show ?thesis
      by (simp add: Let_def case_prod_beta)
  next
    case False
    then have "map_of byUrl ?k \<noteq> None"
      by (cases "map_of byUrl ?k") (auto simp: preferIncoming_def)
    then have "?k \<in> fst ` set byUrl"
      by (simp add: map_of_eq_None_iff)
    with False Cons.IH show ?thesis
      by (auto simp: Let_def)
  qed
qed

section \<open>Characters and splitting\<close>

lemma char_code_less: "char_code c < 256"
  unfolding char_code_def by (rule nat_of_char_less_256)

lemma char_eq_code: "(c = d) = (char_code c = char_code d)"
  by (auto simp: char_code_def)

lemma char_of_code [simp]: "char_of (char_code c) = c"
  by (simp add: char_code_def)

lemma code_char_of: "n < 256 \<Longrightarrow> char_code (char_of n) = n"
  by (simp add: char_code_def)

lemma host_char_lower: "host_char c \<Longrightarrow> ascii_lower c = c"
  by (auto simp: host_char_def ascii_lower_def is_ascii_upper_def is_ascii_lower_def
                 is_ascii_digit_def char_code_def)

lemma map_lower_host: "list_all host_char h \<Longrightarrow> map ascii_lower h = h"
  by (induction h) (auto simp: host_char_lower)

lemma before_Nil [simp]: "before P [] = []"
  by (simp add: before_def)

lemma after_Nil [simp]: "after P [] = None"
  by (simp add: after_def)

lemma before_stop [simp]: "P c \<Longrightarrow> before P (c # s) = []"
  by (simp add: before_def)

lemma after_stop [simp]: "P c \<Longrightarrow> after P (c # s) = Some s"
  by (simp add: after_def)

lemma before_append: "list_all (\<lambda>c. \<not> P c) xs \<Longrightarrow> before P (xs @ ys) = xs @ before P ys"
  by (simp add: before_def takeWhile_append2 list_all_iff)

lemma after_append: "list_all (\<lambda>c. \<not> P c) xs \<Longrightarrow> after P (xs @ ys) = after P ys"
  by (simp add: after_def dropWhile_append2 list_all_iff)

lemma before_all: "list_all (\<lambda>c. \<not> P c) xs \<Longrightarrow> before P xs = xs"
  using before_append [of P xs "[]"] by simp

lemma after_all: "list_all (\<lambda>c. \<not> P c) xs \<Longrightarrow> after P xs = None"
  using after_append [of P xs "[]"] by simp

lemma split_on_nonempty [simp]: "split_on P s \<noteq> []"
  by (induction s) (auto split: list.splits)

lemma split_on_avoids: "list_all (list_all (\<lambda>c. \<not> P c)) (split_on P s)"
  by (induction s) (auto split: list.splits)

lemma split_on_append:
  "list_all (\<lambda>c. \<not> P c) xs \<Longrightarrow> split_on P (xs @ ys) = (xs @ hd (split_on P ys)) # tl (split_on P ys)"
  by (induction xs) (auto split: list.splits)

lemma split_on_all: "list_all (\<lambda>c. \<not> P c) xs \<Longrightarrow> split_on P xs = [xs]"
  using split_on_append [of P xs "[]"] by simp

section \<open>Percent-encoding\<close>

lemma encode_with_Nil [simp]: "encode_with S [] = []"
  by (simp add: encode_with_def)

lemma encode_with_Cons:
  "encode_with S (c # s) = (if S c then percent_encode c else [c]) @ encode_with S s"
  by (simp add: encode_with_def)

lemma encode_with_id: "list_all (\<lambda>c. \<not> S c) s \<Longrightarrow> encode_with S s = s"
  by (induction s) (auto simp: encode_with_Cons)

lemma hex_digit_cases:
  "hex_digit n \<in> set ''0123456789ABCDEF''"
  unfolding hex_digit_def by (rule nth_mem) simp

lemma percent_encode_chars:
  "x \<in> set (percent_encode c) \<Longrightarrow> x \<in> set ''%0123456789ABCDEF''"
  using hex_digit_cases [of "char_code c div 16"] hex_digit_cases [of "char_code c mod 16"]
  by (auto simp: percent_encode_def)

lemma encode_with_avoids:
  assumes "\<And>x. x \<in> set ''%0123456789ABCDEF'' \<Longrightarrow> \<not> S x"
  shows "list_all (\<lambda>c. \<not> S c) (encode_with S s)"
proof (induction s)
  case Nil
  then show ?case by simp
next
  case (Cons c s)
  have "list_all (\<lambda>c. \<not> S c) (percent_encode c)"
    using assms percent_encode_chars unfolding list_all_iff by blast
  with Cons show ?case
    by (simp add: encode_with_Cons)
qed

lemma safe_not_path_set: "x \<in> set ''%0123456789ABCDEF'' \<Longrightarrow> \<not> path_set x"
  by (auto simp: path_set_def query_set_def c0_control_set_def char_code_def)

lemma safe_not_special_query_set: "x \<in> set ''%0123456789ABCDEF'' \<Longrightarrow> \<not> special_query_set x"
  by (auto simp: special_query_set_def query_set_def c0_control_set_def char_code_def)

lemma safe_not_fragment_set: "x \<in> set ''%0123456789ABCDEF'' \<Longrightarrow> \<not> fragment_set x"
  by (auto simp: fragment_set_def c0_control_set_def char_code_def)

lemma safe_not_slash: "x \<in> set ''%0123456789ABCDEF'' \<Longrightarrow> \<not> is_slash x"
  by (auto simp: is_slash_def)

section \<open>Ports and hosts\<close>

lemma decimal_digit_code: "k < 10 \<Longrightarrow> char_code (char_of (48 + k)) = 48 + k"
  by (simp add: code_char_of)

lemma decimal_value_snoc:
  "decimal_value (s @ [c]) = 10 * decimal_value s + (char_code c - 48)"
  by (simp add: decimal_value_def)

lemma decimal_value_decimal: "decimal_value (decimal n) = n"
proof (induction n rule: decimal.induct)
  case (1 n)
  show ?case
  proof (cases "n < 10")
    case True
    then have "decimal n = [char_of (48 + n)]"
      by (subst decimal.simps) simp
    then show ?thesis
      using True by (simp add: decimal_digit_code decimal_value_def)
  next
    case False
    then have "decimal_value (decimal (n div 10)) = n div 10"
      using 1 by simp
    moreover have "decimal n = decimal (n div 10) @ [char_of (48 + n mod 10)]"
      using False by (subst decimal.simps) simp
    ultimately show ?thesis
      by (simp add: decimal_value_snoc decimal_digit_code)
  qed
qed

lemma decimal_digits: "list_all is_ascii_digit (decimal n)"
proof (induction n rule: decimal.induct)
  case (1 n)
  have d: "is_ascii_digit (char_of (48 + k))" if "k < 10" for k :: nat
    using decimal_digit_code [OF that] that by (simp add: is_ascii_digit_def)
  show ?case
  proof (cases "n < 10")
    case True
    then show ?thesis using d by (subst decimal.simps) simp
  next
    case False
    then show ?thesis using 1 d [of "n mod 10"] by (subst decimal.simps) simp
  qed
qed

lemma decimal_nonempty: "decimal n \<noteq> []"
  by (subst decimal.simps) simp

lemma parse_port_serialized:
  assumes "wf_port sch p"
  shows "parse_port sch (case p of None \<Rightarrow> [] | Some n \<Rightarrow> decimal n) = Inr p"
proof (cases p)
  case None
  then show ?thesis by (simp add: parse_port_def)
next
  case (Some n)
  have "\<not> (\<exists>c\<in>set (decimal n). \<not> is_ascii_digit c)"
    using decimal_digits [of n] by (simp add: list_all_iff)
  then show ?thesis
    using assms Some
    by (simp add: parse_port_def decimal_nonempty decimal_value_decimal wf_port_def)
qed

lemma parse_port_wf: "parse_port sch s = Inr p \<Longrightarrow> wf_port sch p"
  by (auto simp: parse_port_def wf_port_def split: if_splits)

lemma host_char_not_special:
  assumes "host_char c"
  shows "\<not> forbidden_domain c" "char_code c < 0x80" "c \<noteq> CHR ''%''" "c \<noteq> CHR ''[''"
    "c \<notin> set ''@[]''" "\<not> is_colon c" "\<not> is_slash c" "\<not> is_hash c" "\<not> is_question c"
    "\<not> is_host_end c" "char_code c \<notin> {0x09, 0x0A, 0x0D}" "c \<notin> set ''[]''"
  using assms
  by (auto simp: host_char_def forbidden_domain_def is_ascii_lower_def is_ascii_digit_def
                 is_colon_def is_slash_def is_hash_def is_question_def is_host_end_def char_code_def)

lemma digit_not_special:
  assumes "is_ascii_digit c"
  shows "c \<notin> set ''@[]''" "\<not> is_colon c" "\<not> is_slash c" "\<not> is_hash c" "\<not> is_question c"
  using assms
  by (auto simp: is_ascii_digit_def is_colon_def is_slash_def is_hash_def is_question_def char_code_def)

lemma host_parse_wf:
  assumes "wf_host h"
  shows "host_parse h = Inr h"
proof -
  have all: "list_all host_char h" and ne: "h \<noteq> []"
    using assms by (simp_all add: wf_host_def)
  have lower: "map ascii_lower h = h"
    using all by (rule map_lower_host)
  have "hd h \<in> set h"
    using ne by simp
  then have "hd h \<noteq> CHR ''[''"
    using all host_char_not_special(4) by (auto simp: list_all_iff)
  moreover have "\<not> (\<exists>c\<in>set h. 0x80 \<le> char_code c \<or> c = CHR ''%'')"
    using all host_char_not_special(2,3) by (fastforce simp: list_all_iff)
  moreover have "\<not> (\<exists>c\<in>set h. forbidden_domain c)"
    using all host_char_not_special(1) by (auto simp: list_all_iff)
  moreover have "\<not> (\<exists>c\<in>set h. \<not> host_char c)"
    using all by (auto simp: list_all_iff)
  ultimately show ?thesis
    using assms ne by (simp add: host_parse_def lower wf_host_def)
qed

lemma host_parse_result:
  assumes "host_parse x = Inr d"
  shows "wf_host d"
proof -
  have d: "d = map ascii_lower x"
    using assms unfolding host_parse_def Let_def by (simp split: if_splits)
  have "x \<noteq> []"
    using assms unfolding host_parse_def Let_def by (simp split: if_splits)
  moreover have "\<not> (\<exists>c\<in>set d. \<not> host_char c)"
    using assms unfolding host_parse_def Let_def d by (simp split: if_splits)
  moreover have "\<not> has_punycode_label d"
    using assms unfolding host_parse_def Let_def d by (simp split: if_splits)
  moreover have "\<not> ends_in_number d"
    using assms unfolding host_parse_def Let_def d by (simp split: if_splits)
  ultimately show ?thesis
    unfolding wf_host_def list_all_iff d by simp
qed

lemma parse_authority_serialized:
  assumes "wf_host h" and "wf_port sch p"
  shows "parse_authority sch (h @ (case p of None \<Rightarrow> [] | Some n \<Rightarrow> CHR '':'' # decimal n)) = Inr (h, p)"
proof -
  have all: "list_all host_char h"
    using assms(1) by (simp add: wf_host_def)
  have nocolon: "list_all (\<lambda>c. \<not> is_colon c) h"
    using all host_char_not_special(6) by (auto simp: list_all_iff)
  have b: "before is_colon (h @ (case p of None \<Rightarrow> [] | Some n \<Rightarrow> CHR '':'' # decimal n)) = h"
    by (cases p) (simp_all add: before_append [OF nocolon] before_all [OF nocolon] is_colon_def)
  have a: "(case after is_colon (h @ (case p of None \<Rightarrow> [] | Some n \<Rightarrow> CHR '':'' # decimal n))
            of None \<Rightarrow> [] | Some s \<Rightarrow> s) = (case p of None \<Rightarrow> [] | Some n \<Rightarrow> decimal n)"
    by (cases p) (simp_all add: after_append [OF nocolon] after_all [OF nocolon] is_colon_def)
  have "\<not> (\<exists>c\<in>set (h @ (case p of None \<Rightarrow> [] | Some n \<Rightarrow> CHR '':'' # decimal n)). c \<in> set ''@[]'')"
  proof (cases p)
    case None
    then show ?thesis
      using all host_char_not_special(5) by (auto simp: list_all_iff)
  next
    case (Some n)
    have "c \<notin> set ''@[]''" if "c \<in> set (decimal n)" for c
      using decimal_digits [of n] that digit_not_special(1) by (auto simp: list_all_iff)
    then show ?thesis
      using Some all host_char_not_special(5) by (auto simp: list_all_iff)
  qed
  then show ?thesis
    unfolding parse_authority_def
    by (simp only: if_False b a host_parse_wf [OF assms(1)] parse_port_serialized [OF assms(2)])
       (simp add: and_then_def)
qed

lemma parse_authority_wf:
  assumes "parse_authority sch a = Inr (h, p)"
  shows "wf_host h \<and> wf_port sch p"
  using assms
  by (auto simp: parse_authority_def and_then_def host_parse_result parse_port_wf
           split: if_splits sum.splits)

section \<open>Paths\<close>

lemma not_dot_Nil [simp]: "\<not> single_dot []" "\<not> double_dot []"
  by (simp_all add: single_dot_def double_dot_def)

lemma wf_segment_Nil [simp]: "wf_segment []"
  by (simp add: wf_segment_def)

lemma split_on_joined:
  assumes "P sep" and "list_all (list_all (\<lambda>c. \<not> P c)) (x # xs)"
  shows "split_on P (x @ concat (map (\<lambda>s. sep # s) xs)) = x # xs"
  using assms(2)
proof (induction xs arbitrary: x)
  case Nil
  then show ?case by (simp add: split_on_all)
next
  case (Cons y ys)
  have "split_on P (y @ concat (map (\<lambda>s. sep # s) ys)) = y # ys"
    using Cons.prems by (intro Cons.IH) simp
  then show ?case
    using Cons.prems assms(1) by (simp add: split_on_append)
qed

lemma path_state_wf_segments:
  assumes "list_all wf_segment segs"
  shows "path_state acc segs = acc @ segs"
  using assms
proof (induction segs arbitrary: acc)
  case Nil
  then show ?case by simp
next
  case (Cons seg segs)
  have "list_all (\<lambda>c. \<not> path_set c) seg"
    using Cons.prems by (auto simp: wf_segment_def list_all_iff)
  then have "encode_with path_set seg = seg"
    by (rule encode_with_id)
  then show ?case
    using Cons by (simp add: wf_segment_def)
qed

lemma parse_path_pathname:
  assumes "wf_path p"
  shows "parse_path (concat (map (\<lambda>seg. CHR ''/'' # seg) p)) = p"
proof -
  obtain x xs where p: "p = x # xs"
    using assms by (cases p) (auto simp: wf_path_def)
  have segs: "list_all wf_segment (x # xs)"
    using assms p by (simp add: wf_path_def)
  then have "list_all (list_all (\<lambda>c. \<not> is_slash c)) (x # xs)"
    by (auto simp: wf_segment_def list_all_iff)
  then have "split_on is_slash (x @ concat (map (\<lambda>s. CHR ''/'' # s) xs)) = x # xs"
    by (intro split_on_joined) (simp_all add: is_slash_def)
  moreover have "path_state [] (x # xs) = x # xs"
    using path_state_wf_segments [OF segs, of "[]"] by simp
  ultimately show ?thesis
    by (simp add: parse_path_def p is_slash_def del: path_state.simps)
qed

lemma safe_not_caret: "x \<in> set ''%0123456789ABCDEF'' \<Longrightarrow> x \<noteq> CHR ''^''"
  by auto

lemma encode_path_segment:
  assumes "list_all (\<lambda>c. \<not> is_slash c \<and> c \<noteq> CHR ''^'') seg"
  shows "list_all (\<lambda>c. \<not> path_set c \<and> \<not> is_slash c \<and> c \<noteq> CHR ''^'') (encode_with path_set seg)"
  using assms
proof (induction seg)
  case Nil
  then show ?case by simp
next
  case (Cons c seg)
  have "list_all (\<lambda>c. \<not> path_set c \<and> \<not> is_slash c \<and> c \<noteq> CHR ''^'') (percent_encode c)"
    using percent_encode_chars safe_not_path_set safe_not_slash safe_not_caret
    unfolding list_all_iff by blast
  with Cons show ?case
    by (simp add: encode_with_Cons)
qed

lemma path_state_wf:
  assumes "list_all wf_segment acc"
    and "list_all (list_all (\<lambda>c. \<not> is_slash c \<and> c \<noteq> CHR ''^'')) segs"
  shows "list_all wf_segment (path_state acc segs) \<and> (segs \<noteq> [] \<longrightarrow> path_state acc segs \<noteq> [])"
  using assms
proof (induction segs arbitrary: acc)
  case Nil
  then show ?case by simp
next
  case (Cons seg segs)
  let ?b = "encode_with path_set seg"
  have enc: "list_all (\<lambda>c. \<not> path_set c \<and> \<not> is_slash c \<and> c \<noteq> CHR ''^'') ?b"
    using Cons.prems(2) by (intro encode_path_segment) simp
  have sh: "list_all wf_segment (shorten acc)"
    using Cons.prems(1) by (auto simp: shorten_def list_all_iff dest: in_set_butlastD)
  have rest: "list_all (list_all (\<lambda>c. \<not> is_slash c \<and> c \<noteq> CHR ''^'')) segs"
    using Cons.prems(2) by simp
  have keep: "path_state acc' [] \<noteq> []" if "acc' \<noteq> []" for acc' :: "string list"
    using that by simp
  consider (dd) "double_dot ?b" | (sd) "\<not> double_dot ?b" "single_dot ?b"
    | (seg) "\<not> double_dot ?b" "\<not> single_dot ?b"
    by blast
  then show ?case
  proof cases
    case dd
    have "list_all wf_segment (shorten acc @ (if segs = [] then [[]] else []))"
      using sh by simp
    from Cons.IH [OF this rest] dd show ?thesis
      by (cases "segs = []") (simp_all add: Let_def)
  next
    case sd
    have "list_all wf_segment (acc @ (if segs = [] then [[]] else []))"
      using Cons.prems(1) by simp
    from Cons.IH [OF this rest] sd show ?thesis
      by (cases "segs = []") (simp_all add: Let_def)
  next
    case seg
    have "wf_segment ?b"
      using enc seg by (simp add: wf_segment_def)
    then have "list_all wf_segment (acc @ [?b])"
      using Cons.prems(1) by simp
    from Cons.IH [OF this rest] seg show ?thesis
      by (cases "segs = []") (simp_all add: Let_def)
  qed
qed

lemma split_on_subset: "x \<in> set (split_on P s) \<Longrightarrow> set x \<subseteq> set s"
proof (induction s arbitrary: x)
  case Nil
  then show ?case by simp
next
  case (Cons c cs)
  show ?case
  proof (cases "P c")
    case True
    then show ?thesis
      using Cons by auto
  next
    case False
    obtain y ys where s: "split_on P cs = y # ys"
      by (cases "split_on P cs") simp_all
    then have "x = c # y \<or> x \<in> set ys"
      using Cons.prems False by simp
    moreover have "set y \<subseteq> set cs" and "\<And>z. z \<in> set ys \<Longrightarrow> set z \<subseteq> set cs"
      using Cons.IH s by simp_all
    ultimately show ?thesis
      by auto
  qed
qed

lemma parse_path_wf:
  assumes "CHR ''^'' \<notin> set s"
  shows "wf_path (parse_path s)"
proof -
  let ?t = "case s of [] \<Rightarrow> [] | c # r \<Rightarrow> if is_slash c then r else s"
  let ?segs = "split_on is_slash ?t"
  have "set ?t \<subseteq> set s"
    by (cases s) auto
  then have "CHR ''^'' \<notin> set x" if "x \<in> set ?segs" for x
    using split_on_subset [OF that] assms by blast
  moreover have "list_all (list_all (\<lambda>c. \<not> is_slash c)) ?segs"
    by (rule split_on_avoids)
  ultimately have "list_all (list_all (\<lambda>c. \<not> is_slash c \<and> c \<noteq> CHR ''^'')) ?segs"
    unfolding list_all_iff by blast
  from path_state_wf [of "[]" ?segs, OF _ this] show ?thesis
    by (simp add: wf_path_def parse_path_def)
qed

lemma endsWith_single: "endsWith s [c] = (s \<noteq> [] \<and> last s = c)"
  by (cases s rule: rev_cases) (auto simp: endsWith_def)

lemma pathname_snoc:
  "concat (map (\<lambda>seg. CHR ''/'' # seg) (q @ [x])) = concat (map (\<lambda>seg. CHR ''/'' # seg) q) @ CHR ''/'' # x"
  by simp

lemma pathname_trailing_slash:
  assumes "wf_path p"
  shows "(concat (map (\<lambda>seg. CHR ''/'' # seg) p) \<noteq> ''/'' \<and>
          endsWith (concat (map (\<lambda>seg. CHR ''/'' # seg) p)) ''/'') = (p \<noteq> [[]] \<and> last p = [])"
proof -
  obtain q x where p: "p = q @ [x]"
    using assms by (cases p rule: rev_cases) (auto simp: wf_path_def)
  have x: "list_all (\<lambda>c. \<not> is_slash c) x"
    using assms p by (auto simp: wf_path_def wf_segment_def list_all_iff)
  have last: "x \<noteq> [] \<Longrightarrow> last x \<noteq> CHR ''/''"
    using x last_in_set [of x] by (auto simp: list_all_iff is_slash_def)
  have one: "(concat (map (\<lambda>seg. CHR ''/'' # seg) q) @ CHR ''/'' # x = ''/'') = (q = [] \<and> x = [])"
    by (cases q) (auto simp: append_eq_Cons_conv)
  show ?thesis
    unfolding p pathname_snoc endsWith_single one
    using last by (cases "x = []") auto
qed

lemma pathname_butlast:
  assumes "last p = []" and "p \<noteq> []"
  shows "butlast (concat (map (\<lambda>seg. CHR ''/'' # seg) p)) = concat (map (\<lambda>seg. CHR ''/'' # seg) (butlast p))"
proof -
  obtain q where "p = q @ [[]]"
    using assms by (cases p rule: rev_cases) auto
  then show ?thesis
    by (simp add: butlast_append)
qed

lemma wf_path_butlast:
  assumes "wf_path p" and "p \<noteq> [[]]" and "last p = []"
  shows "wf_path (butlast p)"
proof -
  obtain q where p: "p = q @ [[]]"
    using assms by (cases p rule: rev_cases) (auto simp: wf_path_def)
  then have "q \<noteq> []"
    using assms(2) by auto
  then show ?thesis
    using assms(1) p by (simp add: wf_path_def)
qed

section \<open>Parsing a serialized URL\<close>

lemma delimiter_chars [simp]:
  "is_hash CHR ''#''" "is_question CHR ''?''" "is_slash CHR ''/''" "is_colon CHR '':''"
  by (simp_all add: is_hash_def is_question_def is_slash_def is_colon_def)

lemma href_parts:
  "href (to_URL u) = rec_scheme u @ ''://'' @ rec_host u @ port_text (rec_port u) @ path_text (rec_path u)
              @ query_text (rec_query u) @ fragment_text (rec_fragment u)"
  by (simp add: href_def to_URL_def credentials_text_def)

lemma url_char_host: "host_char c \<Longrightarrow> url_char c"
  by (auto simp: host_char_def url_char_def is_ascii_lower_def is_ascii_digit_def char_code_def)

lemma url_char_digit: "is_ascii_digit c \<Longrightarrow> url_char c"
  by (auto simp: url_char_def is_ascii_digit_def)

lemma url_char_bounds:
  assumes "\<not> c0_control_set c" and "c \<noteq> CHR 0x20"
  shows "url_char c"
proof -
  have "char_code c \<noteq> 0x20"
    using assms(2) by (simp add: char_eq_code [of c] char_code_def [of "CHR 0x20"])
  moreover have "\<not> char_code c < 0x20" and "\<not> 0x7E < char_code c"
    using assms(1) by (simp_all add: c0_control_set_def)
  ultimately show ?thesis
    unfolding url_char_def by arith
qed

lemma url_char_path: "\<not> path_set c \<Longrightarrow> url_char c \<and> \<not> is_hash c \<and> \<not> is_question c"
  by (auto simp: path_set_def query_set_def is_hash_def is_question_def intro: url_char_bounds)

lemma url_char_query: "\<not> special_query_set c \<Longrightarrow> url_char c \<and> \<not> is_hash c"
  by (auto simp: special_query_set_def query_set_def is_hash_def intro: url_char_bounds)

lemma url_char_fragment: "\<not> fragment_set c \<Longrightarrow> url_char c"
  by (auto simp: fragment_set_def intro: url_char_bounds)

lemma url_chars_scheme:
  "sch \<in> set special_schemes \<Longrightarrow> list_all url_char sch"
  by (auto simp: special_schemes_def url_char_def char_code_def)

lemma port_text_chars:
  "list_all (\<lambda>c. url_char c \<and> \<not> is_hash c \<and> \<not> is_question c \<and> \<not> is_slash c) (port_text p)"
proof (cases p)
  case None
  then show ?thesis by (simp add: port_text_def)
next
  case (Some n)
  have "url_char c \<and> \<not> is_hash c \<and> \<not> is_question c \<and> \<not> is_slash c" if "c \<in> set (decimal n)" for c
    using that decimal_digits [of n] url_char_digit digit_not_special by (auto simp: list_all_iff)
  then show ?thesis
    using Some
    by (auto simp: port_text_def list_all_iff url_char_def is_hash_def is_question_def is_slash_def
                   char_code_def)
qed

lemma host_chars:
  assumes "wf_host h"
  shows "list_all (\<lambda>c. url_char c \<and> \<not> is_hash c \<and> \<not> is_question c \<and> \<not> is_slash c) h"
  using assms url_char_host host_char_not_special
  by (auto simp: wf_host_def list_all_iff)

lemma pathname_chars:
  assumes "wf_path p"
  shows "list_all (\<lambda>c. url_char c \<and> \<not> is_hash c \<and> \<not> is_question c)
           (concat (map (\<lambda>seg. CHR ''/'' # seg) p))"
proof -
  have "url_char c \<and> \<not> is_hash c \<and> \<not> is_question c" if "seg \<in> set p" "c \<in> set seg" for seg c
    using assms that url_char_path [of c] by (auto simp: wf_path_def wf_segment_def list_all_iff)
  moreover have "url_char CHR ''/'' \<and> \<not> is_hash CHR ''/'' \<and> \<not> is_question CHR ''/''"
    by (simp add: url_char_def is_hash_def is_question_def char_code_def)
  ultimately show ?thesis
    by (auto simp: list_all_iff)
qed

lemma pathname_starts_with_slash:
  assumes "wf_path p"
  obtains rest where "concat (map (\<lambda>seg. CHR ''/'' # seg) p) = CHR ''/'' # rest"
  using assms by (cases p) (auto simp: wf_path_def)

lemma query_text_chars:
  assumes "wf_query q"
  shows "list_all (\<lambda>c. url_char c \<and> \<not> is_hash c) (query_text q)"
proof (cases q)
  case None
  then show ?thesis by (simp add: query_text_def)
next
  case (Some s)
  then have "list_all (\<lambda>c. url_char c \<and> \<not> is_hash c) s"
    using assms url_char_query by (auto simp: wf_query_def list_all_iff)
  then show ?thesis
    using Some by (simp add: query_text_def url_char_def is_hash_def char_code_def)
qed

lemma fragment_text_chars:
  assumes "wf_fragment f"
  shows "list_all url_char (fragment_text f)"
proof (cases f)
  case None
  then show ?thesis by (simp add: fragment_text_def)
next
  case (Some s)
  then have "list_all url_char s"
    using assms url_char_fragment by (auto simp: wf_fragment_def list_all_iff)
  then show ?thesis
    using Some by (simp add: fragment_text_def url_char_def char_code_def)
qed

lemma href_chars:
  assumes "wf_url u"
  shows "list_all url_char (href (to_URL u))"
proof -
  have "list_all url_char (rec_scheme u)"
    using assms by (simp add: wf_url_def url_chars_scheme)
  moreover have "list_all url_char ''://''"
    by (simp add: url_char_def char_code_def)
  moreover have "list_all url_char (rec_host u)"
    using host_chars [of "rec_host u"] assms by (simp add: wf_url_def list_all_iff)
  moreover have "list_all url_char (port_text (rec_port u))"
    using port_text_chars [of "rec_port u"] by (simp add: list_all_iff)
  moreover have "list_all url_char (path_text (rec_path u))"
    using pathname_chars [of "rec_path u"] assms by (simp add: wf_url_def path_text_def list_all_iff)
  moreover have "list_all url_char (query_text (rec_query u))"
    using query_text_chars [of "rec_query u"] assms by (simp add: wf_url_def list_all_iff)
  moreover have "list_all url_char (fragment_text (rec_fragment u))"
    using fragment_text_chars [of "rec_fragment u"] assms by (simp add: wf_url_def)
  ultimately show ?thesis
    unfolding href_parts by simp
qed

lemma dropWhile_none: "list_all (\<lambda>c. \<not> P c) s \<Longrightarrow> dropWhile P s = s"
  by (cases s) simp_all

lemma strip_url_chars:
  assumes "list_all url_char s"
  shows "strip_c0_space s = s" and "remove_tab_newline s = s" and "trim s = s"
    and "\<not> (\<exists>c\<in>set s. 0x80 \<le> char_code c)"
proof -
  have a: "list_all (\<lambda>c. \<not> char_code c \<le> 0x20) s"
    using assms by (auto simp: list_all_iff url_char_def)
  then have "list_all (\<lambda>c. \<not> char_code c \<le> 0x20) (rev s)"
    by simp
  then show "strip_c0_space s = s"
    using a by (simp add: strip_c0_space_def dropWhile_none del: list_all_rev)
  have b: "list_all (\<lambda>c. \<not> is_js_space c) s"
    using assms by (auto simp: list_all_iff url_char_def is_js_space_def)
  then have "list_all (\<lambda>c. \<not> is_js_space c) (rev s)"
    by simp
  then show "trim s = s"
    using b by (simp add: trim_def dropWhile_none del: list_all_rev)
  show "remove_tab_newline s = s"
    using assms by (auto simp: remove_tab_newline_def list_all_iff url_char_def intro!: filter_True)
  show "\<not> (\<exists>c\<in>set s. 0x80 \<le> char_code c)"
    using assms by (auto simp: list_all_iff url_char_def)
qed

lemma split_scheme_special:
  assumes "sch \<in> set special_schemes"
  shows "split_scheme (sch @ CHR '':'' # rest) = Some (sch, rest)"
proof -
  have chars: "list_all is_scheme_char sch" and lower: "map ascii_lower sch = sch"
    and first: "sch \<noteq> [] \<and> is_ascii_alpha (hd sch)"
    using assms
    by (auto simp: special_schemes_def is_scheme_char_def is_ascii_alnum_def is_ascii_alpha_def
                   is_ascii_lower_def is_ascii_upper_def ascii_lower_def char_code_def)
  have colon: "\<not> is_scheme_char CHR '':''"
    by (simp add: is_scheme_char_def is_ascii_alnum_def is_ascii_alpha_def is_ascii_lower_def
                  is_ascii_upper_def is_ascii_digit_def char_code_def)
  have t: "takeWhile is_scheme_char (sch @ CHR '':'' # rest) = sch"
    using chars colon by (simp add: takeWhile_append2 list_all_iff)
  have d: "dropWhile is_scheme_char (sch @ CHR '':'' # rest) = CHR '':'' # rest"
    using chars colon by (simp add: dropWhile_append2 list_all_iff)
  obtain c cs where sch: "sch = c # cs"
    using first by (cases sch) auto
  then have "is_ascii_alpha c"
    using first by simp
  then show ?thesis
    unfolding split_scheme_def t d lower by (simp add: sch)
qed

lemma url_parser_href:
  assumes "wf_url u"
  shows "url_parser (href (to_URL u)) = Inr u"
proof -
  let ?h = "rec_host u" and ?P = "port_text (rec_port u)" and ?pa = "path_text (rec_path u)"
    and ?Q = "query_text (rec_query u)" and ?F = "fragment_text (rec_fragment u)"
  have sch: "rec_scheme u \<in> set special_schemes" and host: "wf_host ?h"
    and port: "wf_port (rec_scheme u) (rec_port u)" and path: "wf_path (rec_path u)"
    and qu: "wf_query (rec_query u)" and fr: "wf_fragment (rec_fragment u)"
    using assms by (simp_all add: wf_url_def)
  note clean = strip_url_chars [OF href_chars [OF assms]]
  have pc: "list_all (\<lambda>c. url_char c \<and> \<not> is_hash c \<and> \<not> is_question c) ?pa"
    using pathname_chars [OF path] by (simp add: path_text_def)
  have scheme: "split_scheme (href (to_URL u)) = Some (rec_scheme u, ''//'' @ ?h @ ?P @ ?pa @ ?Q @ ?F)"
    using split_scheme_special [OF sch, of "''//'' @ ?h @ ?P @ ?pa @ ?Q @ ?F"]
    by (simp add: href_parts)
  obtain c cs where h: "?h = c # cs" and c: "\<not> is_slash c"
    using host host_char_not_special(7) by (cases ?h) (auto simp: wf_host_def)
  have slashes: "dropWhile is_slash (?h @ ?P @ ?pa @ ?Q @ ?F) = ?h @ ?P @ ?pa @ ?Q @ ?F"
    using c by (simp add: h)
  have nohash: "list_all (\<lambda>c. \<not> is_hash c) (?h @ ?P @ ?pa @ ?Q)"
    using host_chars [OF host] port_text_chars [of "rec_port u"] pc query_text_chars [OF qu]
    by (auto simp: list_all_iff)
  have r1: "before is_hash (?h @ ?P @ ?pa @ ?Q @ ?F) = ?h @ ?P @ ?pa @ ?Q"
    using before_append [OF nohash, of ?F]
    by (cases "rec_fragment u") (simp_all add: fragment_text_def)
  have frag: "after is_hash (?h @ ?P @ ?pa @ ?Q @ ?F) = rec_fragment u"
    using after_append [OF nohash, of ?F]
    by (cases "rec_fragment u") (simp_all add: fragment_text_def)
  have noq: "list_all (\<lambda>c. \<not> is_question c) (?h @ ?P @ ?pa)"
    using host_chars [OF host] port_text_chars [of "rec_port u"] pc
    by (auto simp: list_all_iff)
  have r2: "before is_question (?h @ ?P @ ?pa @ ?Q) = ?h @ ?P @ ?pa"
    using before_append [OF noq, of ?Q]
    by (cases "rec_query u") (simp_all add: query_text_def)
  have query: "after is_question (?h @ ?P @ ?pa @ ?Q) = rec_query u"
    using after_append [OF noq, of ?Q]
    by (cases "rec_query u") (simp_all add: query_text_def)
  have noslash: "list_all (\<lambda>c. \<not> is_slash c) (?h @ ?P)"
    using host_chars [OF host] port_text_chars [of "rec_port u"]
    by (auto simp: list_all_iff)
  obtain rest where pa: "?pa = CHR ''/'' # rest"
    using pathname_starts_with_slash [OF path] by (auto simp: path_text_def)
  have auth: "before is_slash (?h @ ?P @ ?pa) = ?h @ ?P"
    using before_append [OF noslash, of ?pa] by (simp add: pa)
  have rest_path: "dropWhile (\<lambda>c. \<not> is_slash c) (?h @ ?P @ ?pa) = ?pa"
    using noslash dropWhile_append2 [of "?h @ ?P" "\<lambda>c. \<not> is_slash c" ?pa]
    by (simp add: list_all_iff pa)
  have authority: "parse_authority (rec_scheme u) (?h @ ?P) = Inr (?h, rec_port u)"
    using parse_authority_serialized [OF host port] by (simp add: port_text_def)
  have nocaret: "CHR ''^'' \<notin> set ?pa"
    using path by (auto simp: path_text_def wf_path_def wf_segment_def list_all_iff)
  have pathp: "parse_path ?pa = rec_path u"
    using parse_path_pathname [OF path] by (simp add: path_text_def)
  have q: "map_option (encode_with special_query_set) (rec_query u) = rec_query u"
    using qu by (cases "rec_query u") (simp_all add: wf_query_def encode_with_id)
  have f: "map_option (encode_with fragment_set) (rec_fragment u) = rec_fragment u"
    using fr by (cases "rec_fragment u") (simp_all add: wf_fragment_def encode_with_id)
  show ?thesis
    unfolding url_parser_def clean(1) clean(2) Let_def
    using clean(4) sch
    by (simp add: scheme slashes r1 frag r2 query auth rest_path authority pathp q f and_then_def nocaret)
qed

lemma url_parser_wf:
  assumes "url_parser s = Inr u"
  shows "wf_url u"
proof -
  let ?s = "remove_tab_newline (strip_c0_space s)"
  obtain sch rest where scheme: "split_scheme ?s = Some (sch, rest)"
    using assms unfolding url_parser_def Let_def
    by (cases "split_scheme ?s") (auto split: if_splits)
  have special: "sch \<in> set special_schemes"
    using assms unfolding url_parser_def Let_def scheme by (simp split: if_splits)
  let ?r = "dropWhile is_slash rest"
  let ?r1 = "before is_hash ?r"
  let ?r2 = "before is_question ?r1"
  have nocaret: "CHR ''^'' \<notin> set (dropWhile (\<lambda>c. \<not> is_slash c) ?r2)"
    using assms special unfolding url_parser_def Let_def scheme by (simp split: if_splits)
  obtain h p where auth: "parse_authority sch (before is_slash ?r2) = Inr (h, p)"
    using assms special unfolding url_parser_def Let_def scheme
    by (cases "parse_authority sch (before is_slash ?r2)") (auto simp: and_then_def split: if_splits)
  have u: "u = \<lparr>rec_scheme = sch, rec_host = h, rec_port = p,
               rec_path = parse_path (dropWhile (\<lambda>c. \<not> is_slash c) ?r2),
               rec_query = map_option (encode_with special_query_set) (after is_question ?r1),
               rec_fragment = map_option (encode_with fragment_set) (after is_hash ?r)\<rparr>"
    using assms special unfolding url_parser_def Let_def scheme
    by (simp add: auth and_then_def split: if_splits)
  have "wf_query (map_option (encode_with special_query_set) q)" for q
    using encode_with_avoids [of special_query_set, OF safe_not_special_query_set]
    by (cases q) (simp_all add: wf_query_def)
  moreover have "wf_fragment (map_option (encode_with fragment_set) f)" for f
    using encode_with_avoids [of fragment_set, OF safe_not_fragment_set]
    by (cases f) (simp_all add: wf_fragment_def)
  ultimately show ?thesis
    using parse_authority_wf [OF auth] special
    by (simp add: wf_url_def u parse_path_wf [OF nocaret])
qed

section \<open>Query parameters\<close>

lemma percent_decode_Cons: "c \<noteq> CHR ''%'' \<Longrightarrow> percent_decode (c # s) = c # percent_decode s"
proof (cases s)
  case Nil
  then show ?thesis by simp
next
  case (Cons h t)
  assume "c \<noteq> CHR ''%''"
  then show ?thesis using Cons by (cases t) simp_all
qed

lemma hex_digit_table:
  "\<forall>k\<in>set [0..<16]. is_ascii_hex (hex_digit k) \<and> hex_value (hex_digit k) = k \<and>
      is_ascii_alnum (hex_digit k)"
  by code_simp

lemma hex_digit_value:
  assumes "k < 16"
  shows "is_ascii_hex (hex_digit k)" and "hex_value (hex_digit k) = k" and "is_ascii_alnum (hex_digit k)"
  using hex_digit_table assms by auto

lemma percent_decode_encoded: "percent_decode (percent_encode c @ s) = c # percent_decode s"
proof -
  have hi: "char_code c div 16 < 16"
    using char_code_less [of c] by simp
  have lo: "char_code c mod 16 < 16"
    by simp
  have "16 * (char_code c div 16) + char_code c mod 16 = char_code c"
    by simp
  then show ?thesis
    unfolding percent_encode_def
    by (simp add: hex_digit_value [OF hi] hex_digit_value [OF lo])
qed

lemma percent_encode_form: "list_all form_char (percent_encode c)"
proof -
  have "char_code c div 16 < 16"
    using char_code_less [of c] by simp
  then show ?thesis
    by (simp add: percent_encode_def form_char_def hex_digit_value)
qed

lemma form_char_plain:
  assumes "form_char c"
  shows "\<not> is_ampersand c" "\<not> is_equals c" "\<not> special_query_set c"
  using assms
  by (auto simp: form_char_def is_ampersand_def is_equals_def special_query_set_def query_set_def
                 c0_control_set_def is_ascii_alnum_def is_ascii_alpha_def is_ascii_upper_def
                 is_ascii_lower_def is_ascii_digit_def char_code_def)

lemma urlencoded_encode_Cons:
  "urlencoded_encode (c # s) =
     (if c = CHR 0x20 then ''+'' else if urlencoded_set c then percent_encode c else [c])
       @ urlencoded_encode s"
  by (simp add: urlencoded_encode_def)

lemma urlencoded_encode_form: "list_all form_char (urlencoded_encode s)"
proof (induction s)
  case Nil
  then show ?case by (simp add: urlencoded_encode_def)
next
  case (Cons c s)
  have "form_char c" if "\<not> urlencoded_set c"
    using that by (auto simp: urlencoded_set_def form_char_def)
  moreover have "form_char CHR ''+''"
    by (simp add: form_char_def)
  ultimately show ?case
    using Cons percent_encode_form [of c] by (simp add: urlencoded_encode_Cons)
qed

lemma plus_in_urlencoded_set: "urlencoded_set CHR ''+''" "urlencoded_set CHR ''%''"
  by (simp_all add: urlencoded_set_def is_ascii_alnum_def is_ascii_alpha_def is_ascii_upper_def
                    is_ascii_lower_def is_ascii_digit_def char_code_def)

lemma percent_encode_no_plus:
  "map (\<lambda>c. if c = CHR ''+'' then CHR 0x20 else c) (percent_encode c) = percent_encode c"
proof -
  have "x \<noteq> CHR ''+''" if "x \<in> set (percent_encode c)" for x
    using percent_encode_chars [OF that] by auto
  then show ?thesis
    by (intro map_idI) simp
qed

lemma urlencoded_decode_encode: "urlencoded_decode (urlencoded_encode s) = s"
proof (induction s)
  case Nil
  then show ?case by (simp add: urlencoded_decode_def urlencoded_encode_def)
next
  case (Cons c s)
  let ?m = "map (\<lambda>c. if c = CHR ''+'' then CHR 0x20 else c)"
  have ih: "percent_decode (?m (urlencoded_encode s)) = s"
    using Cons by (simp add: urlencoded_decode_def)
  consider (space) "c = CHR 0x20" | (enc) "c \<noteq> CHR 0x20" "urlencoded_set c"
    | (safe) "c \<noteq> CHR 0x20" "\<not> urlencoded_set c"
    by blast
  then show ?case
  proof cases
    case space
    then show ?thesis
      by (simp add: urlencoded_decode_def urlencoded_encode_Cons percent_decode_Cons ih)
  next
    case enc
    then show ?thesis
      by (simp add: urlencoded_decode_def urlencoded_encode_Cons percent_encode_no_plus
                    percent_decode_encoded ih)
  next
    case safe
    then have "c \<noteq> CHR ''+''" and "c \<noteq> CHR ''%''"
      using plus_in_urlencoded_set by auto
    then show ?thesis
      using safe
      by (simp add: urlencoded_decode_def urlencoded_encode_Cons percent_decode_Cons ih)
  qed
qed

lemma join_single: "join [c] (x # xs) = x @ concat (map (\<lambda>s. c # s) xs)"
  by (induction xs arbitrary: x) simp_all

lemma urlencoded_pair:
  "before is_equals (urlencoded_encode n @ CHR ''='' # urlencoded_encode v) = urlencoded_encode n"
  "after is_equals (urlencoded_encode n @ CHR ''='' # urlencoded_encode v) = Some (urlencoded_encode v)"
proof -
  have "list_all (\<lambda>c. \<not> is_equals c) (urlencoded_encode n)"
    using urlencoded_encode_form [of n] form_char_plain(2) by (auto simp: list_all_iff)
  then show "before is_equals (urlencoded_encode n @ CHR ''='' # urlencoded_encode v) = urlencoded_encode n"
    and "after is_equals (urlencoded_encode n @ CHR ''='' # urlencoded_encode v) = Some (urlencoded_encode v)"
    by (simp_all add: before_append after_append is_equals_def)
qed

lemma urlencoded_pair_chars:
  "list_all (\<lambda>c. \<not> is_ampersand c \<and> (form_char c \<or> c = CHR ''=''))
     (urlencoded_encode n @ ''='' @ urlencoded_encode v)"
  using urlencoded_encode_form [of n] urlencoded_encode_form [of v] form_char_plain(1)
  by (auto simp: list_all_iff is_ampersand_def)

lemma urlencoded_parse_serialize: "urlencoded_parse (urlencoded_serialize l) = l"
proof -
  let ?enc = "\<lambda>(n, v). urlencoded_encode n @ ''='' @ urlencoded_encode v"
  let ?dec = "\<lambda>b. (urlencoded_decode (before is_equals b),
                   urlencoded_decode (case after is_equals b of None \<Rightarrow> [] | Some v \<Rightarrow> v))"
  have split: "filter (\<lambda>b. b \<noteq> []) (split_on is_ampersand (urlencoded_serialize l)) = map ?enc l"
  proof (cases l)
    case Nil
    then show ?thesis by (simp add: urlencoded_serialize_def)
  next
    case (Cons p ps)
    have "list_all (list_all (\<lambda>c. \<not> is_ampersand c)) (map ?enc (p # ps))"
      using urlencoded_pair_chars by (auto simp: list_all_iff)
    then have "split_on is_ampersand (?enc p @ concat (map (\<lambda>s. CHR ''&'' # s) (map ?enc ps)))
               = map ?enc (p # ps)"
      using split_on_joined [of is_ampersand "CHR ''&''" "?enc p" "map ?enc ps"]
      by (simp add: is_ampersand_def)
    moreover have "?enc q \<noteq> []" for q
      by (cases q) simp
    ultimately show ?thesis
      using Cons
      by (simp add: urlencoded_serialize_def join_single [of "CHR ''&''"] filter_id_conv del: map_map)
  qed
  have inv: "?dec (?enc q) = q" for q
    by (cases q) (simp add: urlencoded_pair urlencoded_decode_encode)
  have "map ?dec (map ?enc l) = l"
    by (induction l) (simp_all only: list.map inv)
  then show ?thesis
    unfolding urlencoded_parse_def split .
qed

lemma urlencoded_serialize_chars:
  "list_all (\<lambda>c. \<not> special_query_set c) (urlencoded_serialize l)"
proof -
  let ?enc = "\<lambda>(n, v). urlencoded_encode n @ ''='' @ urlencoded_encode v"
  have plain: "\<not> special_query_set CHR ''=''" "\<not> special_query_set CHR ''&''"
    by (simp_all add: special_query_set_def query_set_def c0_control_set_def char_code_def)
  have pair: "list_all (\<lambda>c. \<not> special_query_set c) (?enc q)" for q
  proof -
    obtain n v where q: "q = (n, v)"
      by (cases q)
    have "\<not> special_query_set c"
      if "c \<in> set (urlencoded_encode n @ ''='' @ urlencoded_encode v)" for c
    proof -
      have "form_char c \<or> c = CHR ''=''"
        using that urlencoded_pair_chars [of n v] unfolding list_all_iff by blast
      then show ?thesis
        using form_char_plain(3) [of c] plain(1) by blast
    qed
    then show ?thesis
      unfolding q list_all_iff by simp
  qed
  show ?thesis
  proof (cases l)
    case Nil
    then show ?thesis by (simp add: urlencoded_serialize_def)
  next
    case (Cons p ps)
    have "list_all (\<lambda>c. \<not> special_query_set c) (concat (map (\<lambda>s. CHR ''&'' # s) (map ?enc ps)))"
      using pair plain by (induction ps) auto
    then show ?thesis
      using Cons pair [of p]
      by (simp add: urlencoded_serialize_def join_single [of "CHR ''&''"] del: map_map)
  qed
qed

section \<open>The reference implementation meets the laws\<close>

lemma startsWith_includes: "startsWith s p \<Longrightarrow> str_includes s p"
  by (cases s) (simp_all add: startsWith_def)

lemma str_includes_append: "str_includes s p \<Longrightarrow> str_includes (xs @ s) p"
proof (induction xs)
  case Nil
  then show ?case by simp
next
  case (Cons x xs)
  then show ?case by simp
qed

lemma punycode_without_www:
  assumes "has_punycode_label v"
  shows "has_punycode_label (''www.'' @ v)"
proof -
  have "str_includes (''www'' @ (CHR ''.'' # v)) ''.xn--''"
  proof (rule str_includes_append)
    show "str_includes (CHR ''.'' # v) ''.xn--''"
      using assms
      by (auto simp: has_punycode_label_def startsWith_def intro: startsWith_includes)
  qed
  then show ?thesis
    by (simp add: has_punycode_label_def)
qed

lemma last_label_without_www:
  assumes "v \<noteq> []"
  shows "last_label (''www.'' @ v) = last_label v"
proof -
  have e: "endsWith (''www.'' @ v) ''.'' = endsWith v ''.''"
    using assms by (simp add: endsWith_single)
  have b: "butlast (''www.'' @ v) = ''www.'' @ butlast v"
    using assms by (simp add: butlast_append)
  have dots: "list_all (\<lambda>c. \<not> is_dot c) ''www''" "is_dot CHR ''.''"
    by (simp_all add: is_dot_def)
  have s: "split_on is_dot (''www.'' @ w) = ''www'' # split_on is_dot w" for w
    using split_on_append [OF dots(1), of "CHR ''.'' # w"] dots(2) by simp
  show ?thesis
    unfolding last_label_def e b
    by (cases "endsWith v ''.''") (simp_all only: s if_True if_False last_ConsR split_on_nonempty not_False_eq_True)
qed

lemma wf_host_without_www:
  assumes "wf_host (''www.'' @ v)" and "v \<noteq> []"
  shows "wf_host v"
proof -
  have "list_all host_char v"
    using assms(1) by (simp add: wf_host_def)
  moreover have "\<not> has_punycode_label v"
    using assms(1) punycode_without_www unfolding wf_host_def by blast
  moreover have "\<not> ends_in_number v"
    using assms unfolding wf_host_def ends_in_number_def last_label_without_www [OF assms(2)]
    by blast
  ultimately show ?thesis
    using assms(2) by (simp add: wf_host_def)
qed

lemma wf_host_canonical:
  assumes "wf_host h"
  shows "wf_host (canonical_host h)"
proof (cases "startsWith h ''www.'' \<and> drop 4 h \<noteq> []")
  case True
  then have "take 4 h = ''www.''"
    by (simp add: startsWith_def eval_nat_numeral)
  then have "h = ''www.'' @ drop 4 h"
    by (metis append_take_drop_id)
  then have "wf_host (drop 4 h)"
    using assms True wf_host_without_www [of "drop 4 h"] by simp
  then show ?thesis
    using True by (simp add: canonical_host_def remove_www_prefix_def)
next
  case False
  then have "canonical_host h = h"
    using assms by (auto simp: canonical_host_def remove_www_prefix_def wf_host_def)
  then show ?thesis
    using assms by simp
qed

lemma reference_fields [simp]:
  "URL_new reference = ref_URL_new" "set_hostname reference = ref_set_hostname"
  "set_hash reference = ref_set_hash" "set_pathname reference = ref_set_pathname"
  "searchParams_delete reference = ref_searchParams_delete"
  "searchParams_keys reference = ref_searchParams_keys"
  "urlencoded_parser reference = urlencoded_parse"
  "urlencoded_serializer reference = urlencoded_serialize"
  by (simp_all add: reference_def)

lemma to_URL_updates:
  "(to_URL r)\<lparr>url_host := Some h\<rparr> = to_URL (r\<lparr>rec_host := h\<rparr>)"
  "(to_URL r)\<lparr>url_fragment := f\<rparr> = to_URL (r\<lparr>rec_fragment := f\<rparr>)"
  "(to_URL r)\<lparr>url_query := q\<rparr> = to_URL (r\<lparr>rec_query := q\<rparr>)"
  "(to_URL r)\<lparr>url_path := path_text p\<rparr> = to_URL (r\<lparr>rec_path := p\<rparr>)"
  by (simp_all add: to_URL_def)

lemma to_URL_getters [simp]:
  "hostname (to_URL r) = rec_host r" "pathname (to_URL r) = path_text (rec_path r)"
  "url_query (to_URL r) = rec_query r" "url_host (to_URL r) = Some (rec_host r)"
  by (simp_all add: to_URL_def hostname_def pathname_def)

lemma ref_set_hostname_plain:
  assumes "wf_host v"
  shows "ref_set_hostname u v = u\<lparr>url_host := Some v\<rparr>"
proof -
  have chars: "list_all host_char v"
    using assms by (simp add: wf_host_def)
  have clean: "remove_tab_newline v = v"
    using chars host_char_not_special(11)
    by (auto simp: remove_tab_newline_def list_all_iff intro!: filter_True)
  have ends: "list_all (\<lambda>c. \<not> is_host_end c) v"
    using chars host_char_not_special(10) by (auto simp: list_all_iff)
  then have d: "dropWhile (\<lambda>c. \<not> is_host_end c) v = []"
    by (simp add: list_all_iff)
  have b: "before is_host_end v = v"
    using ends by (rule before_all)
  show ?thesis
    unfolding ref_set_hostname_def clean Let_def
    by (simp add: d b host_parse_wf [OF assms])
qed

lemma ref_set_hostname_empty: "ref_set_hostname u [] = u"
  by (simp add: ref_set_hostname_def remove_tab_newline_def host_parse_def)

lemma ref_set_hostname_canonical:
  assumes "wf_host (rec_host r)"
  shows "ref_set_hostname (to_URL r) (remove_www_prefix (rec_host r))
           = (to_URL r)\<lparr>url_host := Some (canonical_host (rec_host r))\<rparr>"
proof (cases "remove_www_prefix (rec_host r) = []")
  case True
  then show ?thesis
    by (simp add: canonical_host_def ref_set_hostname_empty to_URL_def)
next
  case False
  then have c: "canonical_host (rec_host r) = remove_www_prefix (rec_host r)"
    by (simp add: canonical_host_def)
  have "wf_host (canonical_host (rec_host r))"
    using assms by (rule wf_host_canonical)
  then show ?thesis
    using ref_set_hostname_plain [of "remove_www_prefix (rec_host r)" "to_URL r"]
    by (simp add: c)
qed

lemma ref_set_pathname_trailing_slash:
  assumes "wf_path (rec_path r)"
    and "path_text (rec_path r) \<noteq> ''/''" and "endsWith (path_text (rec_path r)) ''/''"
  shows "ref_set_pathname (to_URL r) (butlast (path_text (rec_path r)))
           = (to_URL r)\<lparr>url_path := butlast (path_text (rec_path r))\<rparr>"
proof -
  let ?p = "rec_path r"
  have last: "?p \<noteq> [[]] \<and> last ?p = []"
    using pathname_trailing_slash [OF assms(1)] assms(2,3) by (simp add: path_text_def)
  have ne: "?p \<noteq> []"
    using assms(1) by (simp add: wf_path_def)
  have wf: "wf_path (butlast ?p)"
    using assms(1) last by (intro wf_path_butlast) simp_all
  have shorter: "butlast (path_text ?p) = path_text (butlast ?p)"
    using pathname_butlast [of ?p] last ne by (simp add: path_text_def)
  have "list_all url_char (path_text (butlast ?p))"
    using pathname_chars [OF wf] by (simp add: list_all_iff path_text_def)
  note clean = strip_url_chars [OF this]
  have nocaret: "CHR ''^'' \<notin> set (path_text (butlast ?p))"
    using wf by (auto simp: path_text_def wf_path_def wf_segment_def list_all_iff)
  have "parse_path (path_text (butlast ?p)) = butlast ?p"
    unfolding path_text_def by (rule parse_path_pathname [OF wf])
  then show ?thesis
    unfolding ref_set_pathname_def shorter clean(2) Let_def
    using clean(4) nocaret by auto
qed

lemma wf_url_updates:
  assumes "wf_url r"
  shows "wf_host h \<Longrightarrow> wf_url (r\<lparr>rec_host := h\<rparr>)"
    and "wf_fragment f \<Longrightarrow> wf_url (r\<lparr>rec_fragment := f\<rparr>)"
    and "wf_query q \<Longrightarrow> wf_url (r\<lparr>rec_query := q\<rparr>)"
    and "wf_path p \<Longrightarrow> wf_url (r\<lparr>rec_path := p\<rparr>)"
  using assms by (simp_all add: wf_url_def)

lemma ref_set_hostname_wf:
  assumes "wf_url r"
  shows "\<exists>r'. wf_url r' \<and> ref_set_hostname (to_URL r) v = to_URL r'"
proof -
  let ?s = "remove_tab_newline v"
  show ?thesis
  proof (cases "host_parse (before is_host_end ?s)")
    case (Inl e)
    then have "ref_set_hostname (to_URL r) v = to_URL r"
      by (simp add: ref_set_hostname_def Let_def)
    then show ?thesis
      using assms by blast
  next
    case (Inr h)
    then have "wf_host h"
      by (rule host_parse_result)
    then have "wf_url (r\<lparr>rec_host := h\<rparr>)"
      using assms by (intro wf_url_updates)
    moreover have "ref_set_hostname (to_URL r) v = to_URL r \<or>
        ref_set_hostname (to_URL r) v = to_URL (r\<lparr>rec_host := h\<rparr>)"
      using Inr by (simp add: ref_set_hostname_def Let_def to_URL_updates)
    ultimately show ?thesis
      using assms by blast
  qed
qed

lemma ref_set_hash_wf:
  assumes "wf_url r"
  shows "\<exists>r'. wf_url r' \<and> ref_set_hash (to_URL r) v = to_URL r'"
proof -
  let ?s = "remove_tab_newline (if hd v = CHR ''#'' then tl v else v)"
  have "wf_fragment None" and "wf_fragment (Some (encode_with fragment_set ?s))"
    using encode_with_avoids [of fragment_set, OF safe_not_fragment_set]
    by (simp_all add: wf_fragment_def)
  then have "wf_url (r\<lparr>rec_fragment := None\<rparr>)"
    and "wf_url (r\<lparr>rec_fragment := Some (encode_with fragment_set ?s)\<rparr>)"
    using assms by (simp_all add: wf_url_updates)
  moreover have "ref_set_hash (to_URL r) v = to_URL r \<or>
      ref_set_hash (to_URL r) v = to_URL (r\<lparr>rec_fragment := None\<rparr>) \<or>
      ref_set_hash (to_URL r) v = to_URL (r\<lparr>rec_fragment := Some (encode_with fragment_set ?s)\<rparr>)"
    by (simp add: ref_set_hash_def Let_def to_URL_updates)
  ultimately show ?thesis
    using assms by blast
qed

lemma ref_set_pathname_wf:
  assumes "wf_url r"
  shows "\<exists>r'. wf_url r' \<and> ref_set_pathname (to_URL r) v = to_URL r'"
proof (cases "\<exists>c\<in>set (remove_tab_newline v). 0x80 \<le> char_code c \<or> c = CHR ''^''")
  case True
  then have "ref_set_pathname (to_URL r) v = to_URL r"
    by (simp add: ref_set_pathname_def Let_def)
  then show ?thesis
    using assms by blast
next
  case False
  then have "CHR ''^'' \<notin> set (remove_tab_newline v)"
    by blast
  then have "wf_path (parse_path (remove_tab_newline v))"
    by (rule parse_path_wf)
  then have "wf_url (r\<lparr>rec_path := parse_path (remove_tab_newline v)\<rparr>)"
    using assms by (intro wf_url_updates)
  moreover have "ref_set_pathname (to_URL r) v = to_URL (r\<lparr>rec_path := parse_path (remove_tab_newline v)\<rparr>)"
    using False by (simp add: ref_set_pathname_def Let_def to_URL_updates)
  ultimately show ?thesis
    by blast
qed

lemma ref_searchParams_delete_wf:
  assumes "wf_url r"
  shows "\<exists>r'. wf_url r' \<and> ref_searchParams_delete (to_URL r) name = to_URL r'"
proof -
  let ?q = "urlencoded_serialize
              (filter (\<lambda>(n, v). n \<noteq> name)
                 (urlencoded_parse (case rec_query r of None \<Rightarrow> [] | Some q \<Rightarrow> q)))"
  have "wf_query (if ?q = [] then None else Some ?q)"
    by (simp add: wf_query_def urlencoded_serialize_chars)
  then have "wf_url (r\<lparr>rec_query := (if ?q = [] then None else Some ?q)\<rparr>)"
    using assms by (intro wf_url_updates)
  moreover have "ref_searchParams_delete (to_URL r) name
                   = to_URL (r\<lparr>rec_query := (if ?q = [] then None else Some ?q)\<rparr>)"
    by (simp add: ref_searchParams_delete_def Let_def to_URL_updates)
  ultimately show ?thesis
    by blast
qed

lemma produced_reference:
  assumes "produced reference u"
  shows "\<exists>r. wf_url r \<and> u = to_URL r"
  using assms
proof (induction rule: produced.induct)
  case (constructed s u)
  then obtain r where "url_parser s = Inr r" and "u = to_URL r"
    by (cases "url_parser s") (auto simp: ref_URL_new_def and_then_def)
  then show ?case
    using url_parser_wf by blast
next
  case (hostname_set u v)
  then show ?case
    using ref_set_hostname_wf by auto
next
  case (hash_set u v)
  then show ?case
    using ref_set_hash_wf by auto
next
  case (pathname_set u v)
  then show ?case
    using ref_set_pathname_wf by auto
next
  case (deleted u name)
  then show ?case
    using ref_searchParams_delete_wf by auto
qed

lemma reference_conforming: "conforming reference"
proof -
  have "URL_new reference (href u) = Inr u \<and>
        trim (href u) = href u \<and>
        set_hostname reference u (remove_www_prefix (hostname u))
          = u\<lparr>url_host := Some (canonical_host (hostname u))\<rparr> \<and>
        set_hash reference u [] = u\<lparr>url_fragment := None\<rparr> \<and>
        (\<forall>name. searchParams_delete reference u name
                  = u\<lparr>url_query := query_of reference
                                     (filter (\<lambda>p. fst p \<noteq> name) (searchParams reference u))\<rparr>) \<and>
        searchParams_keys reference u = map fst (searchParams reference u) \<and>
        (pathname u \<noteq> ''/'' \<and> endsWith (pathname u) ''/'' \<longrightarrow>
           set_pathname reference u (butlast (pathname u)) = u\<lparr>url_path := butlast (pathname u)\<rparr>)"
    if p: "produced reference u" for u
  proof -
    obtain r where wf: "wf_url r" and u: "u = to_URL r"
      using produced_reference [OF p] by blast
    have l1: "URL_new reference (href u) = Inr u"
      unfolding u by (simp add: ref_URL_new_def url_parser_href [OF wf] and_then_def)
    have l2: "trim (href u) = href u"
      unfolding u by (rule strip_url_chars(3) [OF href_chars [OF wf]])
    have l3: "set_hostname reference u (remove_www_prefix (hostname u))
                = u\<lparr>url_host := Some (canonical_host (hostname u))\<rparr>"
      unfolding u using ref_set_hostname_canonical [of r] wf by (simp add: wf_url_def)
    have l4: "set_hash reference u [] = u\<lparr>url_fragment := None\<rparr>"
      by (simp add: ref_set_hash_def)
    have l5: "searchParams_delete reference u name
                = u\<lparr>url_query := query_of reference
                                   (filter (\<lambda>p. fst p \<noteq> name) (searchParams reference u))\<rparr>" for name
    proof -
      have "(\<lambda>(n, v). n \<noteq> name) = (\<lambda>p :: string \<times> string. fst p \<noteq> name)"
        by auto
      then show ?thesis
        by (simp add: ref_searchParams_delete_def query_of_def searchParams_def Let_def)
    qed
    have l6: "searchParams_keys reference u = map fst (searchParams reference u)"
      by (simp add: ref_searchParams_keys_def searchParams_def)
    have l7: "set_pathname reference u (butlast (pathname u)) = u\<lparr>url_path := butlast (pathname u)\<rparr>"
      if "pathname u \<noteq> ''/''" and "endsWith (pathname u) ''/''"
      using that unfolding u
      using ref_set_pathname_trailing_slash [of r] wf by (simp add: wf_url_def)
    show ?thesis
      using l1 l2 l3 l4 l5 l6 l7 by blast
  qed
  moreover have "urlencoded_parser reference (urlencoded_serializer reference l) = l" for l
    by (simp add: urlencoded_parse_serialize)
  ultimately show ?thesis
    unfolding conforming_def by blast
qed

section \<open>The two functions on a conforming platform\<close>

lemma conformingD:
  assumes "conforming P" and "produced P u" and "web u"
  shows "URL_new P (href u) = Inr u"
    and "trim (href u) = href u"
    and "set_hostname P u (remove_www_prefix (hostname u))
           = u\<lparr>url_host := Some (canonical_host (hostname u))\<rparr>"
    and "set_hash P u [] = u\<lparr>url_fragment := None\<rparr>"
    and "searchParams_delete P u name
           = u\<lparr>url_query := query_of P (filter (\<lambda>p. fst p \<noteq> name) (searchParams P u))\<rparr>"
    and "searchParams_keys P u = map fst (searchParams P u)"
    and "pathname u \<noteq> ''/'' \<Longrightarrow> endsWith (pathname u) ''/'' \<Longrightarrow>
           set_pathname P u (butlast (pathname u)) = u\<lparr>url_path := butlast (pathname u)\<rparr>"
proof -
  have all: "URL_new P (href u) = Inr u \<and>
         trim (href u) = href u \<and>
         set_hostname P u (remove_www_prefix (hostname u))
           = u\<lparr>url_host := Some (canonical_host (hostname u))\<rparr> \<and>
         set_hash P u [] = u\<lparr>url_fragment := None\<rparr> \<and>
         (\<forall>name. searchParams_delete P u name
                   = u\<lparr>url_query := query_of P (filter (\<lambda>p. fst p \<noteq> name) (searchParams P u))\<rparr>) \<and>
         searchParams_keys P u = map fst (searchParams P u) \<and>
         (pathname u \<noteq> ''/'' \<and> endsWith (pathname u) ''/'' \<longrightarrow>
            set_pathname P u (butlast (pathname u)) = u\<lparr>url_path := butlast (pathname u)\<rparr>)"
    using assms unfolding conforming_def by blast
  show "URL_new P (href u) = Inr u"
    using all by blast
  show "trim (href u) = href u"
    using all by blast
  show "set_hostname P u (remove_www_prefix (hostname u))
           = u\<lparr>url_host := Some (canonical_host (hostname u))\<rparr>"
    using all by blast
  show "set_hash P u [] = u\<lparr>url_fragment := None\<rparr>"
    using all by blast
  show "searchParams_delete P u name
           = u\<lparr>url_query := query_of P (filter (\<lambda>p. fst p \<noteq> name) (searchParams P u))\<rparr>"
    using all by blast
  show "searchParams_keys P u = map fst (searchParams P u)"
    using all by blast
  show "pathname u \<noteq> ''/'' \<Longrightarrow> endsWith (pathname u) ''/'' \<Longrightarrow>
           set_pathname P u (butlast (pathname u)) = u\<lparr>url_path := butlast (pathname u)\<rparr>"
    using all by blast
qed

lemma searchParams_query_of:
  assumes "conforming P"
  shows "searchParams P (u\<lparr>url_query := query_of P l\<rparr>) = l"
proof -
  have "urlencoded_parser P (urlencoded_serializer P l) = l"
    using assms unfolding conforming_def by blast
  then show ?thesis
    by (cases "urlencoded_serializer P l = []") (simp_all add: searchParams_def query_of_def)
qed

lemma searchParams_unchanged [simp]:
  "searchParams P (u\<lparr>url_host := h\<rparr>) = searchParams P u"
  "searchParams P (u\<lparr>url_fragment := f\<rparr>) = searchParams P u"
  "searchParams P (u\<lparr>url_path := p\<rparr>) = searchParams P u"
  by (simp_all add: searchParams_def)

lemma web_updates [simp]:
  "web (u\<lparr>url_fragment := f\<rparr>) = web u"
  "web (u\<lparr>url_query := q\<rparr>) = web u"
  "web (u\<lparr>url_path := p\<rparr>) = web u"
  "web (u\<lparr>url_host := Some h\<rparr>) = (url_scheme u \<in> {''http'', ''https''})"
  by (simp_all add: web_def)

lemma web_href:
  assumes "web u"
  shows "startsWith (href u) ''http''" and "href u \<noteq> []"
  using assms by (auto simp: web_def href_def startsWith_def)

lemma normalizeUrl_href:
  assumes "conforming P" and "produced P u" and "web u"
  shows "normalizeUrl P (href u) = href u" and "URL_new P (normalizeUrl P (href u)) = Inr u"
proof -
  have p: "URL_new P (href u) = Inr u"
    using assms by (rule conformingD)
  show n: "normalizeUrl P (href u) = href u"
    using web_href(1) [OF assms(3)] by (simp add: normalizeUrl_def p)
  show "URL_new P (normalizeUrl P (href u)) = Inr u"
    unfolding n by (rule p)
qed

lemma untracked_after_ref:
  "filter untracked (filter (\<lambda>p. fst p \<noteq> ''ref'') l) = filter untracked l"
  by (auto simp: untracked_def intro!: filter_cong)

lemma untracked_filter:
  "filter (\<lambda>p. \<not> (utm_key (fst p) \<and> fst p \<in> set (map fst (filter (\<lambda>p. fst p \<noteq> ''ref'') l))))
     (filter (\<lambda>p. fst p \<noteq> ''ref'') l) = filter untracked l"
proof -
  have "(\<not> (utm_key (fst p) \<and> fst p \<in> set (map fst (filter (\<lambda>p. fst p \<noteq> ''ref'') l)))) = untracked p"
    if "p \<in> set l" "fst p \<noteq> ''ref''" for p
    using that by (force simp: untracked_def utm_key_def)
  then show ?thesis
    by (auto simp: untracked_def intro!: filter_cong)
qed

lemma stripRefParam_try_parsed:
  assumes "conforming P" and "URL_new P (normalizeUrl P t) = Inr u" and "web u"
  shows "stripRefParam_try P t =
           Inr (href (u\<lparr>url_query := query_of P (filter (\<lambda>p. fst p \<noteq> ''ref'') (searchParams P u))\<rparr>))"
    and "produced P (u\<lparr>url_query := query_of P (filter (\<lambda>p. fst p \<noteq> ''ref'') (searchParams P u))\<rparr>)"
proof -
  have p: "produced P u"
    using assms(2) by (rule produced.constructed)
  have d: "searchParams_delete P u ''ref''
             = u\<lparr>url_query := query_of P (filter (\<lambda>p. fst p \<noteq> ''ref'') (searchParams P u))\<rparr>"
    using assms(1) p assms(3) by (rule conformingD)
  show "stripRefParam_try P t =
           Inr (href (u\<lparr>url_query := query_of P (filter (\<lambda>p. fst p \<noteq> ''ref'') (searchParams P u))\<rparr>))"
    unfolding stripRefParam_try_def assms(2) by (simp add: and_then_def d)
  show "produced P (u\<lparr>url_query := query_of P (filter (\<lambda>p. fst p \<noteq> ''ref'') (searchParams P u))\<rparr>)"
    using produced.deleted [OF p, of "''ref''"] unfolding d .
qed

lemma delete_utm_keys_result:
  assumes "conforming P" and "web u" and "produced P (u\<lparr>url_query := query_of P l\<rparr>)"
  shows "delete_utm_keys P (u\<lparr>url_query := query_of P l\<rparr>) ks =
           u\<lparr>url_query := query_of P (filter (\<lambda>p. \<not> (utm_key (fst p) \<and> fst p \<in> set ks)) l)\<rparr> \<and>
         produced P (u\<lparr>url_query := query_of P (filter (\<lambda>p. \<not> (utm_key (fst p) \<and> fst p \<in> set ks)) l)\<rparr>)"
  using assms(3)
proof (induction ks arbitrary: l)
  case Nil
  then show ?case by simp
next
  case (Cons k ks)
  let ?v = "u\<lparr>url_query := query_of P l\<rparr>"
  show ?case
  proof (cases "utm_key k")
    case True
    let ?l = "filter (\<lambda>p. fst p \<noteq> k) l"
    have w: "web ?v"
      using assms(2) by simp
    have "searchParams_delete P ?v k
            = ?v\<lparr>url_query := query_of P (filter (\<lambda>p. fst p \<noteq> k) (searchParams P ?v))\<rparr>"
      using assms(1) Cons.prems w by (rule conformingD)
    then have d: "searchParams_delete P ?v k = u\<lparr>url_query := query_of P ?l\<rparr>"
      by (simp add: searchParams_query_of [OF assms(1)])
    have "produced P (searchParams_delete P ?v k)"
      using Cons.prems by (rule produced.deleted)
    then have "produced P (u\<lparr>url_query := query_of P ?l\<rparr>)"
      unfolding d .
    from Cons.IH [OF this]
    have "delete_utm_keys P (u\<lparr>url_query := query_of P ?l\<rparr>) ks =
            u\<lparr>url_query := query_of P (filter (\<lambda>p. \<not> (utm_key (fst p) \<and> fst p \<in> set ks)) ?l)\<rparr> \<and>
          produced P (u\<lparr>url_query := query_of P (filter (\<lambda>p. \<not> (utm_key (fst p) \<and> fst p \<in> set ks)) ?l)\<rparr>)" .
    moreover have "filter (\<lambda>p. \<not> (utm_key (fst p) \<and> fst p \<in> set ks)) ?l =
        filter (\<lambda>p. \<not> (utm_key (fst p) \<and> fst p \<in> set (k # ks))) l"
      using True by (auto intro!: filter_cong)
    ultimately show ?thesis
      using True by (simp add: utm_key_def d)
  next
    case False
    have "filter (\<lambda>p. \<not> (utm_key (fst p) \<and> fst p \<in> set ks)) l =
        filter (\<lambda>p. \<not> (utm_key (fst p) \<and> fst p \<in> set (k # ks))) l"
      using False by (auto intro!: filter_cong)
    then show ?thesis
      using False Cons.IH [OF Cons.prems] by (simp add: utm_key_def)
  qed
qed

lemma canonical_path_step:
  assumes "conforming P" and "produced P v" and "web v"
  shows "(if pathname v \<noteq> ''/'' \<and> endsWith (pathname v) ''/''
          then set_pathname P v (butlast (pathname v)) else v)
         = v\<lparr>url_path := canonical_path (url_path v)\<rparr>"
proof (cases "pathname v \<noteq> ''/'' \<and> endsWith (pathname v) ''/''")
  case True
  then have "set_pathname P v (butlast (pathname v)) = v\<lparr>url_path := butlast (pathname v)\<rparr>"
    using conformingD(7) [OF assms] by blast
  then show ?thesis
    using True by (simp add: canonical_path_def pathname_def)
next
  case False
  then have "(if pathname v \<noteq> ''/'' \<and> endsWith (pathname v) ''/''
              then set_pathname P v (butlast (pathname v)) else v) = v"
    by (rule if_not_P)
  moreover have "canonical_path (url_path v) = url_path v"
    using False unfolding canonical_path_def pathname_def by (rule if_not_P)
  ultimately show ?thesis
    by simp
qed

lemma normalizeCompareUrl_try_parsed:
  assumes "conforming P" and "URL_new P (normalizeUrl P t) = Inr u" and "web u"
  shows "normalizeCompareUrl_try P t = Inr (href (canonical_record P u))"
    and "produced P (canonical_record P u)"
proof -
  let ?u1 = "u\<lparr>url_host := Some (canonical_host (hostname u))\<rparr>"
  let ?u2 = "?u1\<lparr>url_fragment := None\<rparr>"
  let ?l3 = "filter (\<lambda>p. fst p \<noteq> ''ref'') (searchParams P u)"
  let ?u3 = "?u2\<lparr>url_query := query_of P ?l3\<rparr>"
  let ?u4 = "?u2\<lparr>url_query := query_of P (filter untracked (searchParams P u))\<rparr>"
  have scheme: "url_scheme u \<in> {''http'', ''https''}"
    using assms(3) by (simp add: web_def)
  have p0: "produced P u"
    using assms(2) by (rule produced.constructed)
  have s1: "set_hostname P u (remove_www_prefix (hostname u)) = ?u1"
    using assms(1) p0 assms(3) by (rule conformingD)
  have p1: "produced P ?u1"
    using produced.hostname_set [OF p0, of "remove_www_prefix (hostname u)"] unfolding s1 .
  have w1: "web ?u1"
    using scheme by simp
  have s2: "set_hash P ?u1 [] = ?u2"
    using assms(1) p1 w1 by (rule conformingD)
  have p2: "produced P ?u2"
    using produced.hash_set [OF p1, of "[]"] unfolding s2 .
  have w2: "web ?u2"
    using scheme by simp
  have "searchParams_delete P ?u2 ''ref''
          = ?u2\<lparr>url_query := query_of P (filter (\<lambda>p. fst p \<noteq> ''ref'') (searchParams P ?u2))\<rparr>"
    using assms(1) p2 w2 by (rule conformingD)
  then have s3: "searchParams_delete P ?u2 ''ref'' = ?u3"
    by simp
  have p3: "produced P ?u3"
    using produced.deleted [OF p2, of "''ref''"] unfolding s3 .
  have w3: "web ?u3"
    using scheme by simp
  have "searchParams_keys P ?u3 = map fst (searchParams P ?u3)"
    using assms(1) p3 w3 by (rule conformingD)
  then have s4: "searchParams_keys P ?u3 = map fst ?l3"
    by (simp only: searchParams_query_of [OF assms(1)])
  have "delete_utm_keys P ?u3 (map fst ?l3) =
          ?u2\<lparr>url_query := query_of P (filter (\<lambda>p. \<not> (utm_key (fst p) \<and> fst p \<in> set (map fst ?l3))) ?l3)\<rparr> \<and>
        produced P (?u2\<lparr>url_query := query_of P (filter (\<lambda>p. \<not> (utm_key (fst p) \<and> fst p \<in> set (map fst ?l3))) ?l3)\<rparr>)"
    using assms(1) w2 p3 by (rule delete_utm_keys_result)
  then have s5: "delete_utm_keys P ?u3 (map fst ?l3) = ?u4" and p4: "produced P ?u4"
    by (simp_all only: untracked_filter)
  have w4: "web ?u4"
    using scheme by simp
  have "(if pathname ?u4 \<noteq> ''/'' \<and> endsWith (pathname ?u4) ''/''
         then set_pathname P ?u4 (butlast (pathname ?u4)) else ?u4)
        = ?u4\<lparr>url_path := canonical_path (url_path ?u4)\<rparr>"
    using assms(1) p4 w4 by (rule canonical_path_step)
  moreover have c: "?u4\<lparr>url_path := canonical_path (url_path ?u4)\<rparr> = canonical_record P u"
    by (simp add: canonical_record_def)
  ultimately have s6: "(if pathname ?u4 \<noteq> ''/'' \<and> endsWith (pathname ?u4) ''/''
         then set_pathname P ?u4 (butlast (pathname ?u4)) else ?u4) = canonical_record P u"
    by simp
  show "normalizeCompareUrl_try P t = Inr (href (canonical_record P u))"
    unfolding normalizeCompareUrl_try_def assms(2)
    by (simp only: and_then_def sum.case Let_def s1 s2 s3 s4 s5 s6 toString_def)
  have "produced P (if pathname ?u4 \<noteq> ''/'' \<and> endsWith (pathname ?u4) ''/''
         then set_pathname P ?u4 (butlast (pathname ?u4)) else ?u4)"
    using p4 produced.pathname_set [OF p4, of "butlast (pathname ?u4)"] by simp
  then show "produced P (canonical_record P u)"
    unfolding s6 .
qed

lemma web_canonical_record: "web u \<Longrightarrow> web (canonical_record P u)"
  by (simp add: canonical_record_def web_def)

lemma unparsable_fallback:
  assumes "trim s = [] \<or> unparsable P (trim s)"
  shows "stripRefParam P s = s" and "normalizeCompareUrl P s = s"
  using assms
  by (auto simp: stripRefParam_def normalizeCompareUrl_def stripRefParam_try_def unparsable_def
                 normalizeCompareUrl_try_def normalizeUrl_def and_then_def Let_def
           split: sum.splits)

lemma stripRefParam_parsed:
  assumes "conforming P" and "parses_to_web P (trim s) u"
  shows "stripRefParam P s =
           href (u\<lparr>url_query := query_of P (filter (\<lambda>p. fst p \<noteq> ''ref'') (searchParams P u))\<rparr>)"
  using assms(2) stripRefParam_try_parsed(1) [OF assms(1), of "trim s" u]
  by (simp add: parses_to_web_def stripRefParam_def)

lemma normalizeCompareUrl_parsed:
  assumes "conforming P" and "parses_to_web P (trim s) u"
  shows "normalizeCompareUrl P s = href (canonical_record P u)"
  using assms(2) normalizeCompareUrl_try_parsed(1) [OF assms(1), of "trim s" u]
  by (simp add: parses_to_web_def normalizeCompareUrl_def)

lemma parses_to_web_href:
  assumes "conforming P" and "produced P v" and "web v"
  shows "parses_to_web P (trim (href v)) v"
  using conformingD(2) [OF assms] normalizeUrl_href(2) [OF assms] web_href(2) [OF assms(3)] assms(3)
  by (simp add: parses_to_web_def)

lemma canonical_key_of_parsed:
  assumes "conforming P" and "parses_to_web P (trim x) u"
  shows "normalizeCompareUrl P (stripRefParam P x) = href (canonical_record P u)"
proof -
  let ?d = "u\<lparr>url_query := query_of P (filter (\<lambda>p. fst p \<noteq> ''ref'') (searchParams P u))\<rparr>"
  have parsed: "URL_new P (normalizeUrl P (trim x)) = Inr u" and w: "web u"
    using assms(2) by (simp_all add: parses_to_web_def)
  have pd: "produced P ?d"
    using assms(1) parsed w by (rule stripRefParam_try_parsed)
  have wd: "web ?d"
    using w by simp
  have "normalizeCompareUrl P (href ?d) = href (canonical_record P ?d)"
    using assms(1) parses_to_web_href [OF assms(1) pd wd] by (rule normalizeCompareUrl_parsed)
  moreover have "canonical_record P ?d = canonical_record P u"
    by (simp add: canonical_record_def searchParams_query_of [OF assms(1)] untracked_after_ref
                  hostname_def del: filter_filter)
  ultimately show ?thesis
    by (simp add: stripRefParam_parsed [OF assms])
qed

section \<open>Claims about the canonical form\<close>

text \<open>
  Claim C9, as amended. On a platform whose URL class conforms to the URL Standard,
  \<open>stripRefParam\<close> is idempotent on every input that is empty or consists of white space
  only, on every input for which both parse attempts throw, and on every input that it parses
  to an \<open>http\<close> or \<open>https\<close> URL.
\<close>

theorem stripRefParam_idempotent:
  assumes "conforming P"
    and "trim s = [] \<or> unparsable P (trim s) \<or> (\<exists>u. parses_to_web P (trim s) u)"
  shows "stripRefParam P (stripRefParam P s) = stripRefParam P s"
proof -
  consider (fallback) "trim s = [] \<or> unparsable P (trim s)"
    | (parsed) u where "parses_to_web P (trim s) u"
    using assms(2) by blast
  then show ?thesis
  proof cases
    case fallback
    then show ?thesis
      by (simp add: unparsable_fallback(1))
  next
    case parsed
    let ?d = "u\<lparr>url_query := query_of P (filter (\<lambda>p. fst p \<noteq> ''ref'') (searchParams P u))\<rparr>"
    have r: "stripRefParam P s = href ?d"
      using assms(1) parsed by (rule stripRefParam_parsed)
    have pd: "produced P ?d"
      using parsed stripRefParam_try_parsed(2) [OF assms(1), of "trim s" u]
      by (simp add: parses_to_web_def)
    have wd: "web ?d"
      using parsed by (simp add: parses_to_web_def)
    have "stripRefParam P (href ?d) =
            href (?d\<lparr>url_query := query_of P (filter (\<lambda>p. fst p \<noteq> ''ref'') (searchParams P ?d))\<rparr>)"
      using assms(1) parses_to_web_href [OF assms(1) pd wd] by (rule stripRefParam_parsed)
    moreover have "?d\<lparr>url_query := query_of P (filter (\<lambda>p. fst p \<noteq> ''ref'') (searchParams P ?d))\<rparr> = ?d"
      by (simp add: searchParams_query_of [OF assms(1)])
    ultimately show ?thesis
      by (simp add: r)
  qed
qed

theorem stripRefParam_idempotent_witness:
  "conforming reference \<and>
   parses_to_web reference (trim ''https://example.com/a?ref=1&x=2'')
     \<lparr>url_scheme = ''https'', url_username = [], url_password = [], url_host = Some ''example.com'',
      url_port = None, url_path = ''/a'', url_query = Some ''ref=1&x=2'', url_fragment = None\<rparr> \<and>
   stripRefParam reference ''https://example.com/a?ref=1&x=2'' = ''https://example.com/a?x=2'' \<and>
   stripRefParam reference (stripRefParam reference ''https://example.com/a?ref=1&x=2'') =
     stripRefParam reference ''https://example.com/a?ref=1&x=2''"
proof -
  have p: "parses_to_web reference (trim ''https://example.com/a?ref=1&x=2'')
     \<lparr>url_scheme = ''https'', url_username = [], url_password = [], url_host = Some ''example.com'',
      url_port = None, url_path = ''/a'', url_query = Some ''ref=1&x=2'', url_fragment = None\<rparr>"
    by code_simp
  then have h: "trim ''https://example.com/a?ref=1&x=2'' = [] \<or>
      unparsable reference (trim ''https://example.com/a?ref=1&x=2'') \<or>
      (\<exists>u. parses_to_web reference (trim ''https://example.com/a?ref=1&x=2'') u)"
    by blast
  have v: "stripRefParam reference ''https://example.com/a?ref=1&x=2'' = ''https://example.com/a?x=2''"
    by code_simp
  from stripRefParam_idempotent [OF reference_conforming h] reference_conforming p v show ?thesis
    by blast
qed

text \<open>
  Claim C9 as stated fails on \<open>ftp:x\<close>: the attempt with \<open>https://\<close> in front throws (the
  port \<open>x\<close> is not a number), the input parses on its own to \<open>ftp://x/\<close>, and a second
  application parses \<open>https://ftp://x/\<close> with host \<open>ftp\<close>.
\<close>

theorem stripRefParam_not_idempotent_counterexample:
  "stripRefParam reference ''ftp:x'' = ''ftp://x/'' \<and>
   stripRefParam reference (stripRefParam reference ''ftp:x'') = ''https://ftp//x/''"
  by code_simp

text \<open>
  Claim C3, as amended. On a platform whose URL class conforms to the URL Standard,
  \<open>normalizeCompareUrl\<close> is idempotent on every input that is blank, on every input for which
  both parse attempts throw, and on every input that it parses to an \<open>http\<close> or \<open>https\<close>
  URL and whose result has a host name that does not begin with \<open>www.\<close> and a path that does
  not end with a slash unless it is the root path.
\<close>

theorem normalizeCompareUrl_idempotent:
  assumes "conforming P"
    and "trim x = [] \<or> unparsable P (trim x) \<or>
         ((\<exists>u. parses_to_web P (trim x) u) \<and> stable_form P (normalizeCompareUrl P x))"
  shows "normalizeCompareUrl P (normalizeCompareUrl P x) = normalizeCompareUrl P x"
proof -
  consider (fallback) "trim x = [] \<or> unparsable P (trim x)"
    | (parsed) u where "parses_to_web P (trim x) u" and "stable_form P (normalizeCompareUrl P x)"
    using assms(2) by blast
  then show ?thesis
  proof cases
    case fallback
    then show ?thesis
      by (simp add: unparsable_fallback(2))
  next
    case parsed
    let ?v = "canonical_record P u"
    have r: "normalizeCompareUrl P x = href ?v"
      using assms(1) parsed(1) by (rule normalizeCompareUrl_parsed)
    have pv: "produced P ?v"
      using parsed(1) normalizeCompareUrl_try_parsed(2) [OF assms(1), of "trim x" u]
      by (simp add: parses_to_web_def)
    have wv: "web ?v"
      using parsed(1) by (simp add: parses_to_web_def web_canonical_record)
    have "URL_new P (href ?v) = Inr ?v"
      using assms(1) pv wv by (rule conformingD)
    then have stable: "\<not> startsWith (hostname ?v) ''www.''"
      "\<not> (pathname ?v \<noteq> ''/'' \<and> endsWith (pathname ?v) ''/'')"
      using parsed(2) unfolding r stable_form_def by simp_all
    have host: "canonical_host (hostname ?v) = hostname ?v"
      using stable(1) by (simp add: canonical_host_def remove_www_prefix_def)
    have path: "canonical_path (url_path ?v) = url_path ?v"
      using stable(2) unfolding canonical_path_def pathname_def by (rule if_not_P)
    have query: "filter untracked (searchParams P ?v) = filter untracked (searchParams P u)"
      by (simp add: canonical_record_def searchParams_query_of [OF assms(1)])
    have "canonical_record P ?v =
            ?v\<lparr>url_host := Some (hostname ?v), url_path := url_path ?v,
               url_query := query_of P (filter untracked (searchParams P u)), url_fragment := None\<rparr>"
      unfolding canonical_record_def [of P ?v] host path query ..
    also have "\<dots> = ?v"
      by (simp add: canonical_record_def hostname_def)
    finally have fixed: "canonical_record P ?v = ?v" .
    have "normalizeCompareUrl P (href ?v) = href (canonical_record P ?v)"
      using assms(1) parses_to_web_href [OF assms(1) pv wv] by (rule normalizeCompareUrl_parsed)
    then show ?thesis
      by (simp add: r fixed)
  qed
qed

theorem normalizeCompareUrl_idempotent_witness:
  "conforming reference \<and>
   parses_to_web reference (trim ''example.com/page/?utm_source=x#frag'')
     \<lparr>url_scheme = ''https'', url_username = [], url_password = [], url_host = Some ''example.com'',
      url_port = None, url_path = ''/page/'', url_query = Some ''utm_source=x'',
      url_fragment = Some ''frag''\<rparr> \<and>
   stable_form reference (normalizeCompareUrl reference ''example.com/page/?utm_source=x#frag'') \<and>
   normalizeCompareUrl reference ''example.com/page/?utm_source=x#frag'' = ''https://example.com/page'' \<and>
   normalizeCompareUrl reference (normalizeCompareUrl reference ''example.com/page/?utm_source=x#frag'') =
     normalizeCompareUrl reference ''example.com/page/?utm_source=x#frag''"
proof -
  have p: "parses_to_web reference (trim ''example.com/page/?utm_source=x#frag'')
     \<lparr>url_scheme = ''https'', url_username = [], url_password = [], url_host = Some ''example.com'',
      url_port = None, url_path = ''/page/'', url_query = Some ''utm_source=x'',
      url_fragment = Some ''frag''\<rparr>"
    by code_simp
  have s: "stable_form reference (normalizeCompareUrl reference ''example.com/page/?utm_source=x#frag'')"
    by code_simp
  from p s have h: "trim ''example.com/page/?utm_source=x#frag'' = [] \<or>
      unparsable reference (trim ''example.com/page/?utm_source=x#frag'') \<or>
      ((\<exists>u. parses_to_web reference (trim ''example.com/page/?utm_source=x#frag'') u) \<and>
       stable_form reference (normalizeCompareUrl reference ''example.com/page/?utm_source=x#frag''))"
    by blast
  have v: "normalizeCompareUrl reference ''example.com/page/?utm_source=x#frag'' = ''https://example.com/page''"
    by code_simp
  from normalizeCompareUrl_idempotent [OF reference_conforming h] reference_conforming p s v
  show ?thesis
    by blast
qed

text \<open>
  Claim C3 as stated fails: only one \<open>www.\<close> prefix is removed per application.
\<close>

theorem normalizeCompareUrl_not_idempotent_counterexample:
  "normalizeCompareUrl reference ''https://www.www.example.com'' = ''https://www.example.com/'' \<and>
   normalizeCompareUrl reference (normalizeCompareUrl reference ''https://www.www.example.com'')
     = ''https://example.com/''"
  by code_simp

text \<open>
  Claim C1, as amended. On a platform whose URL class conforms to the URL Standard, let two
  inputs parse, as the code parses them, to \<open>http\<close> or \<open>https\<close> URLs with the same scheme,
  credentials and port, where the second differs from the first at most by one added \<open>www.\<close>
  host prefix (the first host not itself beginning with \<open>www.\<close>), by one added trailing slash
  (the first path being the root or not ending with a slash), by its fragment, and by query
  parameters named \<open>ref\<close> or beginning with \<open>utm_\<close>. Then \<open>normalizeCompareUrl\<close> applied
  after \<open>stripRefParam\<close> returns the same string for both.
\<close>

theorem canonicalize_ignores_decoration:
  assumes "conforming P"
    and "parses_to_web P (trim x) u" and "parses_to_web P (trim x') u'" and "decorated P u u'"
  shows "normalizeCompareUrl P (stripRefParam P x') = normalizeCompareUrl P (stripRefParam P x)"
proof -
  have host: "canonical_host (hostname u') = canonical_host (hostname u)"
    using assms(4) unfolding decorated_def
    by (auto simp: hostname_def canonical_host_def remove_www_prefix_def startsWith_def)
  have path: "canonical_path (url_path u') = canonical_path (url_path u)"
    using assms(4) unfolding decorated_def
    by (auto simp: canonical_path_def endsWith_def)
  have params: "filter untracked (searchParams P u') = filter untracked (searchParams P u)"
    using assms(4) by (simp add: decorated_def)
  have same: "url_scheme u' = url_scheme u" "url_username u' = url_username u"
    "url_password u' = url_password u" "url_port u' = url_port u"
    using assms(4) by (simp_all add: decorated_def)
  have "canonical_record P u' = canonical_record P u"
    by (rule URL.equality) (simp_all add: canonical_record_def same host path params)
  moreover have "normalizeCompareUrl P (stripRefParam P x) = href (canonical_record P u)"
    using assms(1,2) by (rule canonical_key_of_parsed)
  moreover have "normalizeCompareUrl P (stripRefParam P x') = href (canonical_record P u')"
    using assms(1,3) by (rule canonical_key_of_parsed)
  ultimately show ?thesis
    by simp
qed

theorem canonicalize_ignores_decoration_witness:
  "conforming reference \<and>
   parses_to_web reference (trim ''https://example.com/page'')
     \<lparr>url_scheme = ''https'', url_username = [], url_password = [], url_host = Some ''example.com'',
      url_port = None, url_path = ''/page'', url_query = None, url_fragment = None\<rparr> \<and>
   parses_to_web reference (trim ''https://www.example.com/page/?ref=abc&utm_source=x#frag'')
     \<lparr>url_scheme = ''https'', url_username = [], url_password = [],
      url_host = Some ''www.example.com'', url_port = None, url_path = ''/page/'',
      url_query = Some ''ref=abc&utm_source=x'', url_fragment = Some ''frag''\<rparr> \<and>
   decorated reference
     \<lparr>url_scheme = ''https'', url_username = [], url_password = [], url_host = Some ''example.com'',
      url_port = None, url_path = ''/page'', url_query = None, url_fragment = None\<rparr>
     \<lparr>url_scheme = ''https'', url_username = [], url_password = [],
      url_host = Some ''www.example.com'', url_port = None, url_path = ''/page/'',
      url_query = Some ''ref=abc&utm_source=x'', url_fragment = Some ''frag''\<rparr> \<and>
   normalizeCompareUrl reference
     (stripRefParam reference ''https://www.example.com/page/?ref=abc&utm_source=x#frag'') =
     normalizeCompareUrl reference (stripRefParam reference ''https://example.com/page'')"
proof -
  let ?u = "\<lparr>url_scheme = ''https'', url_username = [], url_password = [],
            url_host = Some ''example.com'', url_port = None, url_path = ''/page'',
            url_query = None, url_fragment = None\<rparr>"
  let ?u' = "\<lparr>url_scheme = ''https'', url_username = [], url_password = [],
             url_host = Some ''www.example.com'', url_port = None, url_path = ''/page/'',
             url_query = Some ''ref=abc&utm_source=x'', url_fragment = Some ''frag''\<rparr>"
  have h1: "parses_to_web reference (trim ''https://example.com/page'') ?u"
    by code_simp
  have h2: "parses_to_web reference (trim ''https://www.example.com/page/?ref=abc&utm_source=x#frag'') ?u'"
    by code_simp
  have h3: "decorated reference ?u ?u'"
    by code_simp
  from canonicalize_ignores_decoration [OF reference_conforming h1 h2 h3] reference_conforming h1 h2 h3
  show ?thesis
    by blast
qed

text \<open>
  Claim C1 as stated fails on its own example: the scheme is never changed, so an \<open>http\<close>
  URL and an \<open>https\<close> URL keep different canonical forms.
\<close>

theorem canonicalize_scheme_counterexample:
  "normalizeCompareUrl reference
     (stripRefParam reference ''http://www.example.com/page/?ref=abc&utm_source=x#frag'') =
     ''http://example.com/page'' \<and>
   normalizeCompareUrl reference (stripRefParam reference ''https://example.com/page'')
     = ''https://example.com/page''"
  by code_simp

section \<open>Claims about deduplication\<close>

text \<open>
  Claim C2, as amended. When an incoming record collides with the record stored under the same
  key, the incoming record replaces it if the stored one is in the \<open>default\<close> collection and
  the incoming one is not, whatever the timestamps; if both are in \<open>default\<close> or both are
  not, it replaces it exactly when its \<open>updatedAt\<close> (a missing value counting as 0) is
  strictly greater than the \<open>updatedAt\<close> of the stored record, so that a tie keeps the
  first-seen record; otherwise the stored record stays. The stored record always carries an
  \<open>updatedAt\<close>: its own, or the clock reading taken when it was stored without one.
\<close>

theorem dedupe_conflict_policy:
  assumes "dedupe_loop P now seen ([], 0) = (byUrl, n)"
    and "map_of byUrl (normalizeCompareUrl P (stripRefParam P (url incoming))) = Some existing"
  shows "\<exists>t. updatedAt existing = Some t \<and>
           map_of (fst (dedupe_loop P now (seen @ [incoming]) ([], 0)))
                  (normalizeCompareUrl P (stripRefParam P (url incoming))) =
             Some (if (collectionId existing = ''default'' \<and> collectionId incoming \<noteq> ''default'') \<or>
                      ((collectionId existing = ''default'') = (collectionId incoming = ''default'') \<and>
                       t < (case updatedAt incoming of None \<Rightarrow> 0 | Some t' \<Rightarrow> t'))
                   then fst (stored_copy now n (normalizeCompareUrl P (stripRefParam P (url incoming))) incoming)
                   else existing)"
proof -
  let ?k = "normalizeCompareUrl P (stripRefParam P (url incoming))"
  have "stored_ok byUrl"
    using dedupe_keys_invariant [of P now seen] assms(1) by simp
  moreover have "(?k, existing) \<in> set byUrl"
    using assms(2) by (rule map_of_SomeD)
  ultimately obtain t where t: "updatedAt existing = Some t"
    by (auto simp: stored_ok_def)
  have loop: "dedupe_loop P now (seen @ [incoming]) ([], 0) = dedupe_loop P now [incoming] (byUrl, n)"
    by (simp add: dedupe_loop_append assms(1))
  show ?thesis
  proof (cases "preferIncoming (Some existing) incoming")
    case True
    then show ?thesis
      using t assms(2) loop
      by (auto simp: preferIncoming_def Let_def case_prod_beta AList.update_conv')
  next
    case False
    then show ?thesis
      using t assms(2) loop
      by (auto simp: preferIncoming_def Let_def)
  qed
qed

theorem dedupe_conflict_policy_witness:
  "dedupe_loop reference example_clock [example_bookmark ''1'' ''http://a.com'' ''default'' (Some 1)] ([], 0) =
     ([(''http://a.com/'',
        (example_bookmark ''1'' ''http://a.com/'' ''default'' (Some 1))\<lparr>createdAt := Some 1700000000000\<rparr>)], 1) \<and>
   map_of (fst (dedupe_loop reference example_clock
                  ([example_bookmark ''1'' ''http://a.com'' ''default'' (Some 1)]
                     @ [example_bookmark ''2'' ''http://a.com/'' ''work'' (Some 1)]) ([], 0)))
          (normalizeCompareUrl reference (stripRefParam reference (url (example_bookmark ''2'' ''http://a.com/'' ''work'' (Some 1))))) =
     Some (fst (stored_copy example_clock 1
                  (normalizeCompareUrl reference (stripRefParam reference (url (example_bookmark ''2'' ''http://a.com/'' ''work'' (Some 1)))))
                  (example_bookmark ''2'' ''http://a.com/'' ''work'' (Some 1)))) \<and>
   map collectionId
     (dedupeBookmarks reference example_clock
        [example_bookmark ''1'' ''http://a.com'' ''default'' (Some 1),
         example_bookmark ''2'' ''http://a.com/'' ''work'' (Some 1)]) = [''work'']"
proof -
  let ?a = "example_bookmark ''1'' ''http://a.com'' ''default'' (Some 1)"
  let ?b = "example_bookmark ''2'' ''http://a.com/'' ''work'' (Some 1)"
  let ?stored = "(example_bookmark ''1'' ''http://a.com/'' ''default'' (Some 1))\<lparr>createdAt := Some 1700000000000\<rparr>"
  have h1: "dedupe_loop reference example_clock [?a] ([], 0) = ([(''http://a.com/'', ?stored)], 1)"
    by code_simp
  have h2: "map_of [(''http://a.com/'', ?stored)] (normalizeCompareUrl reference (stripRefParam reference (url ?b))) = Some ?stored"
    by code_simp
  have c: "collectionId ?stored = ''default''" "collectionId ?b \<noteq> ''default''"
    by (simp_all add: example_bookmark_def)
  have "map_of (fst (dedupe_loop reference example_clock ([?a] @ [?b]) ([], 0)))
               (normalizeCompareUrl reference (stripRefParam reference (url ?b))) =
          Some (fst (stored_copy example_clock 1 (normalizeCompareUrl reference (stripRefParam reference (url ?b))) ?b))"
    using dedupe_conflict_policy [OF h1 h2] c by (elim exE conjE) (simp only: simp_thms if_True)
  moreover have "map collectionId (dedupeBookmarks reference example_clock [?a, ?b]) = [''work'']"
    by code_simp
  ultimately show ?thesis using h1 by blast
qed

text \<open>
  Claim C2 as stated fails when the first-seen record has no \<open>updatedAt\<close>: the claim counts
  it as 0, so the later record with \<open>updatedAt = 5\<close> should win; the code compares against
  the clock reading that was stored with the first record and keeps the first record.
\<close>

theorem dedupe_missing_updatedAt_counterexample:
  "updatedAt (example_bookmark ''1'' ''http://a.com'' ''default'' None) = None \<and>
   updatedAt (example_bookmark ''2'' ''http://a.com'' ''default'' (Some 5)) = Some 5 \<and>
   map id' (dedupeBookmarks reference example_clock
              [example_bookmark ''1'' ''http://a.com'' ''default'' None,
               example_bookmark ''2'' ''http://a.com'' ''default'' (Some 5)]) = [''1'']"
  by code_simp

text \<open>
  Claim C4, as amended. \<open>dedupeBookmarks\<close> returns at most as many records as it was given;
  the \<open>url\<close> values stored in its output are pairwise distinct, and they are exactly the keys
  \<open>normalizeCompareUrl P (stripRefParam P url)\<close> of the input records.
\<close>

theorem dedupe_bounded_distinct_urls:
  "length (dedupeBookmarks P now bookmarks) \<le> length bookmarks \<and>
   distinct (map url (dedupeBookmarks P now bookmarks)) \<and>
   set (map url (dedupeBookmarks P now bookmarks)) =
     (\<lambda>b. normalizeCompareUrl P (stripRefParam P (url b))) ` set bookmarks"
proof -
  let ?al = "fst (dedupe_loop P now bookmarks ([], 0))"
  have ok: "stored_ok ?al"
    by (rule dedupe_keys_invariant)
  then have urls: "map url (map snd ?al) = map fst ?al"
    by (intro map_url_stored) (auto simp: stored_ok_def)
  have "length ?al \<le> length bookmarks"
    using dedupe_loop_length [of P now bookmarks "[]" 0] by simp
  moreover have "distinct (map fst ?al)"
    using ok by (simp add: stored_ok_def)
  moreover have "set (map fst ?al) = (\<lambda>b. normalizeCompareUrl P (stripRefParam P (url b))) ` set bookmarks"
    using dedupe_loop_keys [of P now bookmarks "[]" 0] by simp
  ultimately show ?thesis
    by (simp add: dedupeBookmarks_def urls del: map_map)
qed

text \<open>
  Claim C4 as stated fails: the keys recomputed from the stored \<open>url\<close> values of two output
  records can coincide, because one pass removes only one \<open>www.\<close> prefix.
\<close>

theorem dedupe_recomputed_keys_counterexample:
  "map (\<lambda>r. normalizeCompareUrl reference (stripRefParam reference (url r)))
     (dedupeBookmarks reference example_clock
        [example_bookmark ''1'' ''https://www.www.a.com'' ''default'' (Some 1),
         example_bookmark ''2'' ''https://www.a.com'' ''default'' (Some 1)]) =
     [''https://a.com/'', ''https://a.com/'']"
  by code_simp

text \<open>
  Claim C8. Every record returned by \<open>dedupeBookmarks\<close> is one of the input records with its
  \<open>url\<close> replaced by the key, and with \<open>updatedAt\<close> and \<open>createdAt\<close> replaced by a
  clock reading only where the input record had none; all other fields are those of the input
  record.
\<close>

theorem dedupe_preserves_fields:
  assumes "r \<in> set (dedupeBookmarks P now bookmarks)"
  shows "\<exists>b\<in>set bookmarks. \<exists>i j.
           r = b\<lparr>url := normalizeCompareUrl P (stripRefParam P (url b)),
                 updatedAt := Some (case updatedAt b of Some t \<Rightarrow> t | None \<Rightarrow> now i),
                 createdAt := Some (case createdAt b of Some t \<Rightarrow> t | None \<Rightarrow> now j)\<rparr> \<and>
           id' r = id' b \<and> title r = title b \<and> description r = description b \<and>
           icon r = icon b \<and> image' r = image' b \<and> tags r = tags b \<and>
           collectionId r = collectionId b"
proof -
  let ?Inv = "\<lambda>al. \<forall>(k, r)\<in>set al. \<exists>b\<in>set bookmarks. \<exists>i j.
           r = b\<lparr>url := normalizeCompareUrl P (stripRefParam P (url b)),
                 updatedAt := Some (case updatedAt b of Some t \<Rightarrow> t | None \<Rightarrow> now i),
                 createdAt := Some (case createdAt b of Some t \<Rightarrow> t | None \<Rightarrow> now j)\<rparr>"
  have "?Inv (fst (dedupe_loop P now bookmarks ([], 0)))"
  proof (rule dedupe_loop_invariant [where Inv = ?Inv])
    show "?Inv []" by simp
  next
    fix al :: "(string \<times> Bookmark) list" and b :: Bookmark and n :: nat
    let ?k = "normalizeCompareUrl P (stripRefParam P (url b))"
    assume inv: "?Inv al" and b: "b \<in> set bookmarks"
    show "?Inv (AList.update ?k (fst (stored_copy now n ?k b)) al)"
    proof (clarify)
      fix k r
      assume "(k, r) \<in> set (AList.update ?k (fst (stored_copy now n ?k b)) al)"
      then consider "r = fst (stored_copy now n ?k b)" | "(k, r) \<in> set al"
        using set_update_cases by fastforce
      then show "\<exists>b\<in>set bookmarks. \<exists>i j.
           r = b\<lparr>url := normalizeCompareUrl P (stripRefParam P (url b)),
                 updatedAt := Some (case updatedAt b of Some t \<Rightarrow> t | None \<Rightarrow> now i),
                 createdAt := Some (case createdAt b of Some t \<Rightarrow> t | None \<Rightarrow> now j)\<rparr>"
      proof cases
        case 1
        then show ?thesis
          using b unfolding stored_copy_fields by blast
      next
        case 2
        then show ?thesis using inv by blast
      qed
    qed
  qed
  moreover obtain k where "(k, r) \<in> set (fst (dedupe_loop P now bookmarks ([], 0)))"
    using assms by (auto simp: dedupeBookmarks_def)
  ultimately obtain b i j where "b \<in> set bookmarks"
    and "r = b\<lparr>url := normalizeCompareUrl P (stripRefParam P (url b)),
               updatedAt := Some (case updatedAt b of Some t \<Rightarrow> t | None \<Rightarrow> now i),
               createdAt := Some (case createdAt b of Some t \<Rightarrow> t | None \<Rightarrow> now j)\<rparr>"
    by blast
  then show ?thesis
    by (intro bexI [of _ b] exI [of _ i] exI [of _ j]) simp_all
qed

theorem dedupe_preserves_fields_witness:
  "(example_bookmark ''2'' ''http://a.com/'' ''work'' (Some 1))\<lparr>createdAt := Some 1700000000001\<rparr>
     \<in> set (dedupeBookmarks reference example_clock
               [example_bookmark ''1'' ''http://a.com'' ''default'' (Some 1),
                example_bookmark ''2'' ''http://a.com/'' ''work'' (Some 1)]) \<and>
   (\<exists>b\<in>set [example_bookmark ''1'' ''http://a.com'' ''default'' (Some 1),
              example_bookmark ''2'' ''http://a.com/'' ''work'' (Some 1)].
      id' ((example_bookmark ''2'' ''http://a.com/'' ''work'' (Some 1))\<lparr>createdAt := Some 1700000000001\<rparr>) = id' b \<and>
      collectionId ((example_bookmark ''2'' ''http://a.com/'' ''work'' (Some 1))\<lparr>createdAt := Some 1700000000001\<rparr>)
        = collectionId b)"
proof -
  have h: "(example_bookmark ''2'' ''http://a.com/'' ''work'' (Some 1))\<lparr>createdAt := Some 1700000000001\<rparr>
     \<in> set (dedupeBookmarks reference example_clock
               [example_bookmark ''1'' ''http://a.com'' ''default'' (Some 1),
                example_bookmark ''2'' ''http://a.com/'' ''work'' (Some 1)])"
    by code_simp
  from dedupe_preserves_fields [OF h] show ?thesis
    using h by blast
qed

section \<open>Claims about fallbacks, search and metadata\<close>

text \<open>
  Claim C5, as amended. Whatever the platform's URL class does, \<open>stripRefParam\<close> and
  \<open>normalizeCompareUrl\<close> return a string: when the input is blank, or when the body of the
  \<open>try\<close> block raises any exception, each of them returns the original input string
  unchanged, surrounding white space included. In particular, for an input that is blank or for
  which both parse attempts (of the trimmed input, with \<open>https://\<close> put in front unless it
  starts with \<open>http\<close>, and of the trimmed input itself) throw, that string is the key used for
  deduplication; and \<open>dedupeBookmarks\<close>, given records all of whose \<open>url\<close> values are
  such inputs, returns records whose \<open>url\<close> values are exactly those of the input.
\<close>

theorem unparsable_key_is_input:
  "(trim s = [] \<or> isl (stripRefParam_try P (trim s)) \<longrightarrow> stripRefParam P s = s) \<and>
   (trim s = [] \<or> isl (normalizeCompareUrl_try P (trim s)) \<longrightarrow> normalizeCompareUrl P s = s) \<and>
   (trim s = [] \<or> unparsable P (trim s) \<longrightarrow>
      stripRefParam P s = s \<and> normalizeCompareUrl P s = s \<and>
      normalizeCompareUrl P (stripRefParam P s) = s) \<and>
   ((\<forall>b\<in>set bookmarks. trim (url b) = [] \<or> unparsable P (trim (url b))) \<longrightarrow>
      set (map url (dedupeBookmarks P now bookmarks)) = url ` set bookmarks)"
proof -
  have caught: "stripRefParam P s = s"
    if "trim s = [] \<or> isl (stripRefParam_try P (trim s))"
    using that by (auto simp: stripRefParam_def isl_def Let_def)
  have caught': "normalizeCompareUrl P s = s"
    if "trim s = [] \<or> isl (normalizeCompareUrl_try P (trim s))"
    using that by (auto simp: normalizeCompareUrl_def isl_def Let_def)
  have key: "stripRefParam P t = t \<and> normalizeCompareUrl P t = t \<and>
             normalizeCompareUrl P (stripRefParam P t) = t"
    if "trim t = [] \<or> unparsable P (trim t)" for t
    using unparsable_fallback [OF that] by simp
  have "set (map url (dedupeBookmarks P now bookmarks)) = url ` set bookmarks"
    if all: "\<forall>b\<in>set bookmarks. trim (url b) = [] \<or> unparsable P (trim (url b))"
  proof -
    let ?al = "fst (dedupe_loop P now bookmarks ([], 0))"
    have "stored_ok ?al"
      by (rule dedupe_keys_invariant)
    then have "map url (map snd ?al) = map fst ?al"
      by (intro map_url_stored) (auto simp: stored_ok_def)
    moreover have "set (map fst ?al) = (\<lambda>b. normalizeCompareUrl P (stripRefParam P (url b))) ` set bookmarks"
      using dedupe_loop_keys [of P now bookmarks "[]" 0] by simp
    moreover have "(\<lambda>b. normalizeCompareUrl P (stripRefParam P (url b))) ` set bookmarks = url ` set bookmarks"
      using all key by (intro image_cong) auto
    ultimately show ?thesis
      by (simp add: dedupeBookmarks_def del: map_map)
  qed
  then show ?thesis
    using caught caught' key by blast
qed

theorem unparsable_key_is_input_witness:
  "(trim '' http://'' = [] \<or> isl (stripRefParam_try reference (trim '' http://''))) \<and>
   (trim '' http://'' = [] \<or> isl (normalizeCompareUrl_try reference (trim '' http://''))) \<and>
   (trim '' http://'' = [] \<or> unparsable reference (trim '' http://'')) \<and>
   (trim (url (example_bookmark ''1'' '' http://'' ''default'' (Some 1))) = [] \<or>
    unparsable reference (trim (url (example_bookmark ''1'' '' http://'' ''default'' (Some 1))))) \<and>
   stripRefParam reference '' http://'' = '' http://'' \<and>
   normalizeCompareUrl reference '' http://'' = '' http://'' \<and>
   normalizeCompareUrl reference (stripRefParam reference '' http://'') = '' http://'' \<and>
   set (map url (dedupeBookmarks reference example_clock
                   [example_bookmark ''1'' '' http://'' ''default'' (Some 1)]))
     = url ` set [example_bookmark ''1'' '' http://'' ''default'' (Some 1)]"
proof -
  have h1: "trim '' http://'' = [] \<or> isl (stripRefParam_try reference (trim '' http://''))"
    by code_simp
  have h2: "trim '' http://'' = [] \<or> isl (normalizeCompareUrl_try reference (trim '' http://''))"
    by code_simp
  have h3: "trim '' http://'' = [] \<or> unparsable reference (trim '' http://'')"
    by code_simp
  have u: "url (example_bookmark ''1'' '' http://'' ''default'' (Some 1)) = '' http://''"
    by (simp add: example_bookmark_def)
  with h3 have h4: "trim (url (example_bookmark ''1'' '' http://'' ''default'' (Some 1))) = [] \<or>
      unparsable reference (trim (url (example_bookmark ''1'' '' http://'' ''default'' (Some 1))))"
    by simp
  then have h5: "\<forall>b\<in>set [example_bookmark ''1'' '' http://'' ''default'' (Some 1)].
      trim (url b) = [] \<or> unparsable reference (trim (url b))"
    by simp
  from unparsable_key_is_input
         [of "'' http://''" reference "[example_bookmark ''1'' '' http://'' ''default'' (Some 1)]"
             example_clock]
       h1 h2 h3 h4 h5
  show ?thesis
    by blast
qed

text \<open>
  Claim C5 as stated fails: for an unparsable input with surrounding white space the key is the
  input itself, not the trimmed input.
\<close>

theorem unparsable_key_untrimmed_counterexample:
  "URL_new reference (trim '' http://'') = Inl TypeError \<and>
   normalizeCompareUrl reference (stripRefParam reference '' http://'') \<noteq> trim '' http://''"
  by code_simp

text \<open>
  Claim C7, as amended. \<open>resolveUrl\<close> returns \<open>href\<close> unchanged when it starts with the
  four characters \<open>http\<close>; otherwise it puts \<open>https:\<close> in front of a \<open>href\<close> that starts
  with \<open>//\<close>, the base in front of one that starts with \<open>/\<close>, and the base and \<open>/\<close> in
  front of any other.
\<close>

theorem resolveUrl_cases:
  "(startsWith h ''http'' \<longrightarrow> resolveUrl h b = h) \<and>
   (\<not> startsWith h ''http'' \<and> startsWith h ''//'' \<longrightarrow> resolveUrl h b = ''https:'' @ h) \<and>
   (\<not> startsWith h ''http'' \<and> \<not> startsWith h ''//'' \<and> startsWith h ''/'' \<longrightarrow> resolveUrl h b = b @ h) \<and>
   (\<not> startsWith h ''http'' \<and> \<not> startsWith h ''//'' \<and> \<not> startsWith h ''/'' \<longrightarrow>
      resolveUrl h b = b @ ''/'' @ h)"
  by (simp add: resolveUrl_def)

theorem resolveUrl_cases_witness:
  "startsWith ''http://cdn.example/i.png'' ''http'' \<and>
   resolveUrl ''http://cdn.example/i.png'' ''https://x.com'' = ''http://cdn.example/i.png'' \<and>
   \<not> startsWith ''//cdn.example/i.png'' ''http'' \<and> startsWith ''//cdn.example/i.png'' ''//'' \<and>
   resolveUrl ''//cdn.example/i.png'' ''https://x.com'' = ''https://cdn.example/i.png'' \<and>
   \<not> startsWith ''/i.png'' ''http'' \<and> \<not> startsWith ''/i.png'' ''//'' \<and> startsWith ''/i.png'' ''/'' \<and>
   resolveUrl ''/i.png'' ''https://x.com'' = ''https://x.com/i.png'' \<and>
   \<not> startsWith ''i.png'' ''http'' \<and> \<not> startsWith ''i.png'' ''//'' \<and> \<not> startsWith ''i.png'' ''/'' \<and>
   resolveUrl ''i.png'' ''https://x.com'' = ''https://x.com/i.png''"
  using resolveUrl_cases [of "''http://cdn.example/i.png''" "''https://x.com''"]
        resolveUrl_cases [of "''//cdn.example/i.png''" "''https://x.com''"]
        resolveUrl_cases [of "''/i.png''" "''https://x.com''"]
        resolveUrl_cases [of "''i.png''" "''https://x.com''"]
  by (simp add: startsWith_def)

text \<open>
  Claim C7 as stated fails: a \<open>href\<close> with a scheme other than one that begins with
  \<open>http\<close>, such as a \<open>data:\<close> URL, is not returned unchanged.
\<close>

theorem resolveUrl_scheme_counterexample:
  "spec_has_scheme ''data:image/png;base64,AAAA'' \<and>
   resolveUrl ''data:image/png;base64,AAAA'' ''https://x.com''
     = ''https://x.com/data:image/png;base64,AAAA''"
  by code_simp

text \<open>
  Claim C10. For a query that is empty or consists of whitespace only, \<open>searchBookmarks\<close>
  returns the list it was given.
\<close>

theorem searchBookmarks_blank_query:
  assumes "query = [] \<or> trim query = []"
  shows "searchBookmarks bookmarks query = bookmarks"
proof -
  have "trim query = []"
    using assms by (auto simp: trim_def)
  then show ?thesis
    by (simp add: searchBookmarks_def)
qed

theorem searchBookmarks_blank_query_witness:
  "(([CHR 0x20, CHR 0x09, CHR 0x20] :: string) = [] \<or> trim [CHR 0x20, CHR 0x09, CHR 0x20] = []) \<and>
   searchBookmarks
     [example_bookmark ''1'' ''http://a.com'' ''default'' None,
      example_bookmark ''2'' ''http://b.com'' ''work'' (Some 5)] [CHR 0x20, CHR 0x09, CHR 0x20] =
     [example_bookmark ''1'' ''http://a.com'' ''default'' None,
      example_bookmark ''2'' ''http://b.com'' ''work'' (Some 5)]"
proof -
  have h: "([CHR 0x20, CHR 0x09, CHR 0x20] :: string) = [] \<or> trim [CHR 0x20, CHR 0x09, CHR 0x20] = []"
    by code_simp
  from searchBookmarks_blank_query [OF h] show ?thesis
    using h by blast
qed

text \<open>
  Claim C6. With no title in the HTML, \<open>extractTitle\<close> falls back to the host name of the
  URL. The claim asks for a \<^emph>\<open>leading\<close> \<open>www.\<close> to be stripped; the code removes the first
  occurrence of \<open>www.\<close> wherever it stands, so a host name \<open>m.www.example.com\<close>, which has no
  leading \<open>www.\<close>, loses its second label.
\<close>

theorem extractTitle_inner_www:
  "extractTitle reference ''<html><head></head></html>'' ''https://m.www.example.com'' = ''m.example.com'' \<and>
   \<not> startsWith ''m.www.example.com'' ''www.''"
  by code_simp

end
